theory Spec2Isabelle
  imports Main "HOL-Library.Sublist"
begin

section \<open>Python strings\<close>

text \<open>
  The source is Python 3; its \<open>str\<close> values are modelled as \<open>string\<close> (a list of
  characters), restricted to ASCII text: \<open>str.strip\<close>, \<open>str.lower\<close> and the regular
  expression classes are modelled on the ASCII range only.
\<close>

text \<open>\<open>c.isspace()\<close> on ASCII: tab, line feed, vertical tab, form feed, carriage return,
  the four separators 0x1C..0x1F and the space.\<close>

definition is_space :: "char \<Rightarrow> bool" where
  "is_space c = (c \<in> set [CHR 0x09, CHR 0x0A, CHR 0x0B, CHR 0x0C, CHR 0x0D,
                            CHR 0x1C, CHR 0x1D, CHR 0x1E, CHR 0x1F, CHR 0x20])"

text \<open>\<open>s.strip()\<close>: whitespace removed at both ends.\<close>

definition strip :: "string \<Rightarrow> string" where
  "strip s = rev (dropWhile is_space (rev (dropWhile is_space s)))"

text \<open>\<open>s.lower()\<close> on ASCII: the letters A..Z are moved to a..z.\<close>

definition lower_char :: "char \<Rightarrow> char" where
  "lower_char c =
     (case map_of (zip ''ABCDEFGHIJKLMNOPQRSTUVWXYZ'' ''abcdefghijklmnopqrstuvwxyz'') c of
        Some l \<Rightarrow> l
      | None \<Rightarrow> c)"

definition lower :: "string \<Rightarrow> string" where
  "lower s = map lower_char s"

text \<open>\<open>p in s\<close> for strings: \<open>p\<close> occurs in \<open>s\<close> as a contiguous substring.\<close>

fun contains :: "string \<Rightarrow> string \<Rightarrow> bool" where
  "contains p [] = (p = [])"
| "contains p (c # cs) = (prefix p (c # cs) \<or> contains p cs)"

text \<open>
  \<open>s.split(sep)\<close> with a separator: the pieces between the non-overlapping occurrences
  of \<open>sep\<close>, found from left to right. \<open>cur\<close> is the piece being collected. Python raises
  ValueError for an empty separator; the source only splits at its two non-empty marker
  constants, and here an empty separator is never found.
\<close>

fun split_from :: "string \<Rightarrow> string \<Rightarrow> string \<Rightarrow> string list" where
  "split_from sep cur [] = [cur]"
| "split_from sep cur (c # cs) =
     (if sep \<noteq> [] \<and> prefix sep (c # cs)
      then cur # split_from sep [] (drop (length sep) (c # cs))
      else split_from sep (cur @ [c]) cs)"

definition str_split :: "string \<Rightarrow> string \<Rightarrow> string list" where
  "str_split s sep = split_from sep [] s"

section \<open>Errors\<close>

datatype error =
    IndexError
  | AttributeError
  | ServiceError
  | HTTPException
  | IntegrityError
  | OperationalError string

text \<open>\<open>parts[i]\<close>: Python raises IndexError out of range.\<close>

definition index :: "'a list \<Rightarrow> nat \<Rightarrow> error + 'a" where
  "index xs i = (if i < length xs then Inr (xs ! i) else Inl IndexError)"

section \<open>Response parsing\<close>

text \<open>The two directive markers of \<open>get_contextual_response\<close>.\<close>

definition MEMORIZE :: string where
  "MEMORIZE = ''[MEMORIZE]''"

definition RELATIONSHIP :: string where
  "RELATIONSHIP = ''[RELATIONSHIP]''"

text \<open>
  The first block of the parser: from \<open>full_response\<close> (the reply text is still the full
  response there) to the new reply text and the memory summary, \<open>None\<close> when the marker
  is absent.
  \<^verbatim>\<open>
  reply_text = full_response
  if "[MEMORIZE]" in full_response:
      parts = reply_text.split("[MEMORIZE]")
      reply_text = parts[0].strip()
      memory_summary = parts[1].split("[RELATIONSHIP]")[0].strip()
  \<close>
\<close>

definition memorize_block :: "string \<Rightarrow> error + (string \<times> string option)" where
  "memorize_block full_response =
     (if contains MEMORIZE full_response then
        (let parts = str_split full_response MEMORIZE in
         (case index parts 0 of Inl e \<Rightarrow> Inl e | Inr p0 \<Rightarrow>
         (case index parts 1 of Inl e \<Rightarrow> Inl e | Inr p1 \<Rightarrow>
         (case index (str_split p1 RELATIONSHIP) 0 of Inl e \<Rightarrow> Inl e | Inr m \<Rightarrow>
            Inr (strip p0, Some (strip m))))))
      else Inr (full_response, None))"

text \<open>
  The second block: the marker is looked for in \<open>full_response\<close>, the split is made on
  the reply text the first block left.
  \<^verbatim>\<open>
  if "[RELATIONSHIP]" in full_response:
      parts = reply_text.split("[RELATIONSHIP]")
      reply_text = parts[0].strip()
      new_relationship = parts[1].split("[MEMORIZE]")[0].strip()
  \<close>
\<close>

definition relationship_block :: "string \<Rightarrow> string \<Rightarrow> error + (string \<times> string option)" where
  "relationship_block full_response reply_text =
     (if contains RELATIONSHIP full_response then
        (let parts = str_split reply_text RELATIONSHIP in
         (case index parts 0 of Inl e \<Rightarrow> Inl e | Inr p0 \<Rightarrow>
         (case index parts 1 of Inl e \<Rightarrow> Inl e | Inr p1 \<Rightarrow>
         (case index (str_split p1 MEMORIZE) 0 of Inl e \<Rightarrow> Inl e | Inr r \<Rightarrow>
            Inr (strip p0, Some (strip r))))))
      else Inr (reply_text, None))"

text \<open>
  Both blocks in sequence, without the store: the memory summary the first block extracted
  (the source applies it before the second block runs), and the outcome of the second
  block: the exception it raised, or the final reply text and the new relationship.
\<close>

definition parse_response :: "string \<Rightarrow> string option \<times> (error + (string \<times> string option))" where
  "parse_response full_response =
     (case memorize_block full_response of
        Inl e \<Rightarrow> (None, Inl e)
      | Inr (reply_text, memory_summary) \<Rightarrow>
          (memory_summary, relationship_block full_response reply_text))"

section \<open>The memory store\<close>

text \<open>
  A row of the current \<open>memories\<close> table is its primary key \<open>(user_id, guild_id)\<close> and
  the other three columns; \<open>user_name\<close> is the only column that may hold NULL. The table
  is the list of its rows, in the order of insertion; the primary key allows one row for
  a key.
\<close>

record memory_row =
  user_name :: "string option"
  "notes" :: string
  relationship_status :: string

type_synonym memories = "((int \<times> int) \<times> memory_row) list"

text \<open>\<open>UPDATE memories SET ... WHERE user_id = ? AND guild_id = ?\<close>\<close>

definition update_rows ::
  "(memory_row \<Rightarrow> memory_row) \<Rightarrow> int \<times> int \<Rightarrow> memories \<Rightarrow> memories" where
  "update_rows f k db = map (\<lambda>(k', r). if k' = k then (k', f r) else (k', r)) db"

definition placeholder :: string where
  "placeholder = ''No memories yet.''"

text \<open>
  \<open>get_user_profile\<close>: INSERT OR IGNORE of the default row, then SELECT of the notes and
  the relationship, then commit. The column default of \<open>relationship_status\<close> is
  \<open>'neutral'\<close>. Returns the pair read and the table.
\<close>

definition get_user_profile ::
  "memories \<Rightarrow> int \<Rightarrow> string \<Rightarrow> int \<Rightarrow> (string \<times> string) \<times> memories" where
  "get_user_profile db uid uname gid =
     (let db' = (case map_of db (uid, gid) of
                   None \<Rightarrow> db @ [((uid, gid),
                     \<lparr>user_name = Some uname, notes = placeholder,
                      relationship_status = ''neutral''\<rparr>)]
                 | Some r \<Rightarrow> db)
      in (case map_of db' (uid, gid) of
            Some r \<Rightarrow> ((notes r, relationship_status r), db')
          | None \<Rightarrow> ((placeholder, ''neutral''), db')))"

text \<open>\<open>set_user_notes\<close>: UPDATE of the rows with this key.\<close>

definition set_user_notes :: "memories \<Rightarrow> int \<Rightarrow> string \<Rightarrow> int \<Rightarrow> memories" where
  "set_user_notes db uid new_notes gid = update_rows (\<lambda>r. r\<lparr>notes := new_notes\<rparr>) (uid, gid) db"

text \<open>
  \<open>append_user_memory\<close>: the test on the current notes is Python's \<open>in\<close>, a substring
  test.
  \<^verbatim>\<open>
  notes, _ = self.get_user_profile(user_id, "Unknown", guild_id=guild_id)
  if "No memories yet." in notes:
      new_notes = f"- {memory_summary}"
  else:
      new_notes = f"{notes}\n- {memory_summary}"
  self.set_user_notes(user_id, new_notes, guild_id=guild_id)
  \<close>
\<close>

definition append_user_memory :: "memories \<Rightarrow> int \<Rightarrow> string \<Rightarrow> int \<Rightarrow> memories" where
  "append_user_memory db uid memory_summary gid =
     (case get_user_profile db uid ''Unknown'' gid of
        ((cur_notes, rel), db') \<Rightarrow>
          set_user_notes db' uid
            (if contains placeholder cur_notes then ''- '' @ memory_summary
             else cur_notes @ [CHR 0x0A] @ ''- '' @ memory_summary)
            gid)"

definition set_user_relationship :: "memories \<Rightarrow> int \<Rightarrow> string \<Rightarrow> int \<Rightarrow> memories" where
  "set_user_relationship db uid status gid =
     update_rows (\<lambda>r. r\<lparr>relationship_status := status\<rparr>) (uid, gid) db"

text \<open>
  The administrative commands, as far as the store goes: \<open>ctx_guild\<close> is the id of the
  guild the command was sent in, \<open>None\<close> in a direct message.
  \<^verbatim>\<open>guild_id = ctx.guild.id if ctx.guild else 0\<close>
\<close>

definition context_guild_id :: "int option \<Rightarrow> int" where
  "context_guild_id g = (case g of Some gid \<Rightarrow> gid | None \<Rightarrow> 0)"

definition memory_add :: "memories \<Rightarrow> int option \<Rightarrow> int \<Rightarrow> string \<Rightarrow> memories" where
  "memory_add db ctx_guild uid text = append_user_memory db uid text (context_guild_id ctx_guild)"

definition memory_clear :: "memories \<Rightarrow> int option \<Rightarrow> int \<Rightarrow> memories" where
  "memory_clear db ctx_guild uid = set_user_notes db uid placeholder (context_guild_id ctx_guild)"

text \<open>
  The notes of a key as the store's own reader returns them: the notes of its row, the
  placeholder when it has none.
\<close>

definition current_notes :: "memories \<Rightarrow> int \<Rightarrow> int \<Rightarrow> string" where
  "current_notes db uid gid = fst (fst (get_user_profile db uid ''Unknown'' gid))"

text \<open>The lines of a note text: the pieces between line feeds.\<close>

definition lines_of :: "string \<Rightarrow> string list" where
  "lines_of s = str_split s [CHR 0x0A]"

section \<open>The reaction log\<close>

text \<open>
  The table \<open>reacted_messages\<close>: \<open>message_id\<close> is the primary key, \<open>reacted_at\<close> defaults
  to the time of the insert, which is an input here. \<open>has\<close> is the SELECT of the
  reaction loop, \<open>record_reaction\<close> its INSERT: a plain INSERT, which fails on a key
  that is in the table.
  \<^verbatim>\<open>
  cursor.execute("SELECT 1 FROM reacted_messages WHERE message_id = ?", (message.id,))
  if cursor.fetchone(): continue
  ...
  cursor.execute("INSERT INTO reacted_messages (message_id) VALUES (?)", (message.id,))
  \<close>
\<close>

type_synonym reaction_log = "int \<rightharpoonup> nat"

definition has :: "reaction_log \<Rightarrow> int \<Rightarrow> bool" where
  "has log mid = (log mid \<noteq> None)"

definition record_reaction :: "nat \<Rightarrow> reaction_log \<Rightarrow> int \<Rightarrow> error + reaction_log" where
  "record_reaction now log mid =
     (if log mid \<noteq> None then Inl IntegrityError else Inr (log(mid \<mapsto> now)))"

section \<open>The database file and the schema migration\<close>

text \<open>
  A row of a legacy \<open>memories\<close> table, which has no \<open>guild_id\<close> column. Its CREATE
  statement is not in the source, so every column may hold NULL (\<open>None\<close>) and the same
  \<open>user_id\<close> may occur twice.
\<close>

record legacy_row =
  l_user_id :: "int option"
  l_user_name :: "string option"
  l_notes :: "string option"
  l_relationship_status :: "string option"

datatype memories_table = Legacy "legacy_row list" | Current memories

text \<open>The tables of the file; \<open>None\<close> when there is no table of that name.\<close>

record database =
  memories :: "memories_table option"
  memories_old :: "memories_table option"
  reacted_messages :: "reaction_log option"

text \<open>
  The connection \<open>self.db\<close> of Python's \<open>sqlite3\<close> module in its default mode:
  \<open>committed\<close> is what the file holds, \<open>working\<close> what the connection sees. Outside a
  transaction every statement is committed by itself. The module opens a transaction
  before an INSERT, UPDATE or DELETE when none is open, and not before a CREATE, ALTER or
  DROP. A statement that fails changes no table and leaves the transaction open.
\<close>

record connection =
  committed :: database
  working :: database
  in_transaction :: bool

definition commit :: "connection \<Rightarrow> connection" where
  "commit c = c\<lparr>committed := working c, in_transaction := False\<rparr>"

definition rollback :: "connection \<Rightarrow> connection" where
  "rollback c = c\<lparr>working := committed c, in_transaction := False\<rparr>"

text \<open>\<open>cursor.execute("BEGIN TRANSACTION")\<close>\<close>

definition begin_transaction :: "connection \<Rightarrow> error option \<times> connection" where
  "begin_transaction c =
     (if in_transaction c
      then (Some (OperationalError ''cannot start a transaction within a transaction''), c)
      else (None, c\<lparr>in_transaction := True\<rparr>))"

text \<open>
  \<open>cursor.execute\<close> of one statement, given as its effect on the tables; \<open>dml\<close> says
  that the statement is an INSERT, UPDATE or DELETE.
\<close>

definition execute ::
  "bool \<Rightarrow> (database \<Rightarrow> error + database) \<Rightarrow> connection \<Rightarrow> error option \<times> connection" where
  "execute dml stmt c =
     (let c1 = (if dml \<and> \<not> in_transaction c then c\<lparr>in_transaction := True\<rparr> else c)
      in (case stmt (working c1) of
            Inl e \<Rightarrow> (Some e, c1)
          | Inr d \<Rightarrow>
              (None, if in_transaction c1 then c1\<lparr>working := d\<rparr>
                     else c1\<lparr>working := d, committed := d\<rparr>)))"

text \<open>\<open>SELECT guild_id FROM memories LIMIT 1\<close>\<close>

definition select_guild_id :: "database \<Rightarrow> error + database" where
  "select_guild_id d =
     (case memories d of
        None \<Rightarrow> Inl (OperationalError ''no such table: memories'')
      | Some (Legacy rows) \<Rightarrow> Inl (OperationalError ''no such column: guild_id'')
      | Some (Current m) \<Rightarrow> Inr d)"

text \<open>\<open>ALTER TABLE memories RENAME TO memories_old\<close>\<close>

definition rename_memories :: "database \<Rightarrow> error + database" where
  "rename_memories d =
     (case memories d of
        None \<Rightarrow> Inl (OperationalError ''no such table: memories'')
      | Some t \<Rightarrow>
          (if memories_old d \<noteq> None
           then Inl (OperationalError
                  ''there is already another table or index with this name: memories_old'')
           else Inr (d\<lparr>memories := None, memories_old := Some t\<rparr>)))"

text \<open>\<open>CREATE TABLE IF NOT EXISTS memories (...)\<close>\<close>

definition create_memories :: "database \<Rightarrow> error + database" where
  "create_memories d =
     (if memories d = None then Inr (d\<lparr>memories := Some (Current [])\<rparr>) else Inr d)"

text \<open>
  \<open>create_memory_table\<close>: the CREATE statement on a cursor of its own, then
  \<open>self.db.commit()\<close>.
\<close>

definition create_memory_table :: "connection \<Rightarrow> error option \<times> connection" where
  "create_memory_table c =
     (case execute False create_memories c of
        (Some e, c1) \<Rightarrow> (Some e, c1)
      | (None, c1) \<Rightarrow> (None, commit c1))"

text \<open>
  The rows of the copy, inserted one after the other with \<open>guild_id\<close> 0. The new table
  declares \<open>user_id\<close>, \<open>notes\<close> and \<open>relationship_status\<close> NOT NULL and
  \<open>(user_id, guild_id)\<close> its primary key; a row that breaks one of these fails the whole
  statement.
\<close>

fun insert_rows :: "legacy_row list \<Rightarrow> memories \<Rightarrow> error + memories" where
  "insert_rows [] m = Inr m"
| "insert_rows (r # rs) m =
     (case (l_user_id r, l_notes r, l_relationship_status r) of
        (Some u, Some n, Some s) \<Rightarrow>
          (if map_of m (u, 0) \<noteq> None then Inl IntegrityError
           else insert_rows rs
                  (m @ [((u, 0), \<lparr>user_name = l_user_name r, notes = n,
                                     relationship_status = s\<rparr>)]))
      | _ \<Rightarrow> Inl IntegrityError)"

text \<open>\<open>SELECT user_id, 0, user_name, notes, relationship_status FROM memories_old\<close>\<close>

fun selected_rows :: "memories_table \<Rightarrow> legacy_row list" where
  "selected_rows (Legacy rows) = rows"
| "selected_rows (Current m) =
     map (\<lambda>((u, g), r). \<lparr>l_user_id = Some u, l_user_name = user_name r,
                           l_notes = Some (notes r),
                           l_relationship_status = Some (relationship_status r)\<rparr>) m"

text \<open>
  \<open>INSERT INTO memories (user_id, guild_id, user_name, notes, relationship_status)
  SELECT user_id, 0, user_name, notes, relationship_status FROM memories_old\<close>
\<close>

definition copy_rows :: "database \<Rightarrow> error + database" where
  "copy_rows d =
     (case memories d of
        None \<Rightarrow> Inl (OperationalError ''no such table: memories'')
      | Some (Legacy rows) \<Rightarrow>
          Inl (OperationalError ''table memories has no column named guild_id'')
      | Some (Current m) \<Rightarrow>
          (case memories_old d of
             None \<Rightarrow> Inl (OperationalError ''no such table: memories_old'')
           | Some old \<Rightarrow>
               (case insert_rows (selected_rows old) m of
                  Inl e \<Rightarrow> Inl e
                | Inr m' \<Rightarrow> Inr (d\<lparr>memories := Some (Current m')\<rparr>))))"

text \<open>\<open>DROP TABLE memories_old\<close>\<close>

definition drop_memories_old :: "database \<Rightarrow> error + database" where
  "drop_memories_old d =
     (if memories_old d = None then Inl (OperationalError ''no such table: memories_old'')
      else Inr (d\<lparr>memories_old := None\<rparr>))"

text \<open>
  The body of the inner \<open>try\<close> of \<open>migrate_database\<close> (in the source
  \<open>_migrate_database\<close>): each statement in turn, the first exception ends it.
  \<^verbatim>\<open>
  cursor.execute("BEGIN TRANSACTION")
  cursor.execute("ALTER TABLE memories RENAME TO memories_old")
  self.create_memory_table()
  cursor.execute('INSERT INTO memories (...) SELECT ... FROM memories_old')
  cursor.execute("DROP TABLE memories_old")
  self.db.commit()
  \<close>
\<close>

definition migration_steps :: "connection \<Rightarrow> error option \<times> connection" where
  "migration_steps c =
     (case begin_transaction c of
        (Some e, c1) \<Rightarrow> (Some e, c1)
      | (None, c1) \<Rightarrow>
     (case execute False rename_memories c1 of
        (Some e, c2) \<Rightarrow> (Some e, c2)
      | (None, c2) \<Rightarrow>
     (case create_memory_table c2 of
        (Some e, c3) \<Rightarrow> (Some e, c3)
      | (None, c3) \<Rightarrow>
     (case execute True copy_rows c3 of
        (Some e, c4) \<Rightarrow> (Some e, c4)
      | (None, c4) \<Rightarrow>
     (case execute False drop_memories_old c4 of
        (Some e, c5) \<Rightarrow> (Some e, c5)
      | (None, c5) \<Rightarrow> (None, commit c5))))))"

text \<open>
  \<open>migrate_database\<close>: the result is the exception that leaves the function, if any, and
  the connection. The migration runs when the message of the OperationalError of the
  SELECT contains \<open>no such column: guild_id\<close>; any other OperationalError is raised again.
  An exception in the migration is followed by \<open>self.db.rollback()\<close> and raised again.
\<close>

definition migrate_database :: "connection \<Rightarrow> error option \<times> connection" where
  "migrate_database c =
     (case execute False select_guild_id c of
        (None, c1) \<Rightarrow> (None, c1)
      | (Some (OperationalError msg), c1) \<Rightarrow>
          (if contains ''no such column: guild_id'' msg
           then (case migration_steps c1 of
                   (None, c2) \<Rightarrow> (None, c2)
                 | (Some migration_error, c2) \<Rightarrow> (Some migration_error, rollback c2))
           else (Some (OperationalError msg), c1))
      | (Some e, c1) \<Rightarrow> (Some e, c1))"

text \<open>A connection just opened on a file.\<close>

definition connect :: "database \<Rightarrow> connection" where
  "connect d = \<lparr>committed = d, working = d, in_transaction = False\<rparr>"

section \<open>Configuration and activation policy\<close>

text \<open>
  One entry of \<open>server_settings\<close> in the configuration: a dict read with
  \<open>settings.get("is_active_in_all_channels")\<close> and \<open>settings.get("active_channels", [])\<close>,
  so either key may be missing.
\<close>

record settings =
  is_active_in_all_channels :: "bool option"
  active_channels :: "int list option"

text \<open>
  The keys of \<open>self.bot.config\<close> that the core reads, each \<open>None\<close> when the key is
  missing; the source reads them with \<open>config.get(key, default)\<close>.
\<close>

record config =
  ignored_users :: "int list option"
  trigger_words :: "string list option"
  server_settings :: "(string \<rightharpoonup> settings) option"
  boredom_threshold :: "int option"

text \<open>\<open>str(n)\<close> of an integer: its decimal digits, with a minus sign when negative.\<close>

fun digits :: "nat \<Rightarrow> string" where
  "digits n =
     (if n < 10 then [''0123456789'' ! n]
      else digits (n div 10) @ [''0123456789'' ! (n mod 10)])"

definition str_of_int :: "int \<Rightarrow> string" where
  "str_of_int i = (if i < 0 then CHR ''-'' # digits (nat (- i)) else digits (nat i))"

text \<open>
  \<open>get_server_settings\<close> (in the source \<open>_get_server_settings\<close>):
  \<^verbatim>\<open>
  server_settings = self.bot.config.get("server_settings", {})
  guild_id_str = str(guild_id)
  return server_settings.get(guild_id_str, server_settings.get("default", {
      "is_active_in_all_channels": False, "active_channels": []}))
  \<close>
\<close>

definition get_server_settings :: "config \<Rightarrow> int \<Rightarrow> settings" where
  "get_server_settings cfg guild_id =
     (let ss = (case server_settings cfg of None \<Rightarrow> Map.empty | Some m \<Rightarrow> m)
      in (case ss (str_of_int guild_id) of
            Some s \<Rightarrow> s
          | None \<Rightarrow>
              (case ss ''default'' of
                 Some s \<Rightarrow> s
               | None \<Rightarrow> \<lparr>is_active_in_all_channels = Some False,
                           active_channels = Some []\<rparr>)))"

text \<open>
  The activation test of \<open>on_message\<close> for a message of guild \<open>guild_id\<close> in channel
  \<open>cid\<close>; \<open>True\<close> when the message is let through.
  \<^verbatim>\<open>
  if not server_settings.get("is_active_in_all_channels") and \\
     message.channel.id not in server_settings.get("active_channels", []):
      return
  \<close>
\<close>

definition channel_is_active :: "config \<Rightarrow> int \<Rightarrow> int \<Rightarrow> bool" where
  "channel_is_active cfg guild_id cid =
     (let s = get_server_settings cfg guild_id
      in is_active_in_all_channels s = Some True \<or>
         cid \<in> set (case active_channels s of None \<Rightarrow> [] | Some cs \<Rightarrow> cs))"

section \<open>Addressing\<close>

text \<open>
  What \<open>on_message\<close> reads of a message: \<open>guild\<close> is the id of its guild, \<open>None\<close> for a
  direct message; \<open>mentions\<close> the ids of the mentioned users; \<open>reference_author\<close> the id of
  the author of the resolved message it replies to, \<open>None\<close> when it is no reply or the
  reference is not resolved.
\<close>

record message =
  message_id :: int
  author_id :: int
  author_bot :: bool
  author_display_name :: string
  guild :: "int option"
  channel_id :: int
  mentions :: "int list"
  reference_author :: "int option"
  content :: string

text \<open>
  \<open>re.search(r'\b' + re.escape(word) + r'\b', content, re.IGNORECASE)\<close> on ASCII text:
  \<open>\w\<close> is a letter, a digit or the underscore; \<open>\b\<close> holds at a position when exactly
  one of the characters before and after it is a \<open>\w\<close> character (a missing character
  counts as none); the escaped word matches itself, letters without regard to case.
\<close>

definition is_word_char :: "char \<Rightarrow> bool" where
  "is_word_char c =
     (c \<in> set ''abcdefghijklmnopqrstuvwxyzABCDEFGHIJKLMNOPQRSTUVWXYZ0123456789_'')"

definition word_boundary :: "string \<Rightarrow> nat \<Rightarrow> bool" where
  "word_boundary s i =
     ((0 < i \<and> i \<le> length s \<and> is_word_char (s ! (i - 1))) \<noteq>
      (i < length s \<and> is_word_char (s ! i)))"

definition matches_at :: "string \<Rightarrow> string \<Rightarrow> nat \<Rightarrow> bool" where
  "matches_at w s i =
     (word_boundary s i \<and> lower (take (length w) (drop i s)) = lower w \<and>
      word_boundary s (i + length w))"

definition search_word :: "string \<Rightarrow> string \<Rightarrow> bool" where
  "search_word w s = list_ex (matches_at w s) [0..<Suc (length s)]"

text \<open>
  The addressing test of \<open>on_message\<close>; \<open>bot_id\<close> is \<open>self.bot.user.id\<close>.
  \<^verbatim>\<open>
  is_mentioned = self.bot.user in message.mentions
  is_reply = message.reference and message.reference.resolved and \\
             message.reference.resolved.author.id == self.bot.user.id
  triggered = False
  trigger_words = self.bot.config.get('trigger_words', [])
  if trigger_words:
      if any(re.search(...) for word in trigger_words):
          triggered = True
  \<close>
\<close>

definition is_addressed :: "config \<Rightarrow> int \<Rightarrow> message \<Rightarrow> bool" where
  "is_addressed cfg bot_id m =
     (let is_mentioned = (bot_id \<in> set (mentions m));
          is_reply = (reference_author m = Some bot_id);
          triggered = list_ex (\<lambda>w. search_word w (content m))
                        (case trigger_words cfg of None \<Rightarrow> [] | Some ws \<Rightarrow> ws)
      in is_mentioned \<or> is_reply \<or> triggered)"

section \<open>The agent\<close>

text \<open>
  The mutable fields of \<open>AICore\<close>: the three state variables, whether \<open>self.client\<close> is
  set (the completion service is available), and the two tables of the store.
\<close>

record agent =
  boredom_level :: int
  is_thinking_in_channel :: "int \<rightharpoonup> bool"
  stealth_mode :: bool
  client :: bool
  store :: memories
  reaction_log :: reaction_log

text \<open>
  A completion call \<open>await self.client.aio.models.generate_content(...)\<close> is an input of the
  model: \<open>Inl e\<close> when the call raises, \<open>Inr None\<close> when the response has no text
  (\<open>response.text\<close> is \<open>None\<close>), \<open>Inr (Some t)\<close> when its text is \<open>t\<close>. The prompt is
  not modelled.
\<close>

type_synonym completion = "error + string option"

subsection \<open>The engagement classifier\<close>

text \<open>
  \<open>should_respond_to_message\<close> (in the source \<open>_should_respond_to_message\<close>):
  \<^verbatim>\<open>
  if not self.client: return False
  ...
  try:
      response = await self.client.aio.models.generate_content(...)
      decision = response.text.strip().lower()
      return "yes" in decision
  except Exception as e:
      return False
  \<close>
  \<open>None.strip()\<close> raises AttributeError, which the handler catches.
\<close>

definition should_respond_to_message :: "bool \<Rightarrow> completion \<Rightarrow> bool" where
  "should_respond_to_message has_client response =
     (if \<not> has_client then False
      else (case response of
              Inl e \<Rightarrow> False
            | Inr None \<Rightarrow> False
            | Inr (Some text) \<Rightarrow> contains ''yes'' (lower (strip text))))"

text \<open>
  The output contract of the classifier in the words of the specification, stated
  without \<open>strip\<close> and \<open>lower\<close>: \<open>yes_any_case u\<close> says that \<open>u\<close> is the word \<open>yes\<close> in one of
  its eight spellings of upper and lower case.
\<close>

definition yes_any_case :: "string \<Rightarrow> bool" where
  "yes_any_case u =
     (u \<in> set [''yes'', ''yeS'', ''yEs'', ''yES'', ''Yes'', ''YeS'', ''YEs'', ''YES''])"

text \<open>
  \<open>trimmed_of t s\<close> says that \<open>s\<close> is \<open>t\<close> without its leading and trailing whitespace:
  \<open>t\<close> is \<open>s\<close> between two runs of whitespace characters, and \<open>s\<close>, unless empty,
  neither begins nor ends with one.
\<close>

definition trimmed_of :: "string \<Rightarrow> string \<Rightarrow> bool" where
  "trimmed_of t s =
     (\<exists>l r. t = l @ s @ r \<and>
        set l \<subseteq> set [CHR 0x09, CHR 0x0A, CHR 0x0B, CHR 0x0C, CHR 0x0D,
                      CHR 0x1C, CHR 0x1D, CHR 0x1E, CHR 0x1F, CHR 0x20] \<and>
        set r \<subseteq> set [CHR 0x09, CHR 0x0A, CHR 0x0B, CHR 0x0C, CHR 0x0D,
                      CHR 0x1C, CHR 0x1D, CHR 0x1E, CHR 0x1F, CHR 0x20] \<and>
        (s = [] \<or>
         hd s \<notin> set [CHR 0x09, CHR 0x0A, CHR 0x0B, CHR 0x0C, CHR 0x0D,
                     CHR 0x1C, CHR 0x1D, CHR 0x1E, CHR 0x1F, CHR 0x20] \<and>
         last s \<notin> set [CHR 0x09, CHR 0x0A, CHR 0x0B, CHR 0x0C, CHR 0x0D,
                       CHR 0x1C, CHR 0x1D, CHR 0x1E, CHR 0x1F, CHR 0x20]))"

subsection \<open>The reply\<close>

text \<open>
  \<open>get_contextual_response\<close>: \<open>response\<close> is the outcome of the completion call,
  \<open>reply_ok\<close> says that typing and \<open>message.reply\<close> do not raise. The result is the agent
  and the reply that was sent, if any. Every exception inside the \<open>try\<close> is caught and
  logged, and what was done before it stays done.
  \<^verbatim>\<open>
  if not self.client: return
  context_guild_id = message.guild.id if message.guild else 0
  author_notes, relationship = self.get_user_profile(...)
  try:
      response = await ...generate_content(...)
      full_response = response.text.strip()
      reply_text = full_response
      if "[MEMORIZE]" in full_response:
          ...
          if memory_summary:
              self.append_user_memory(message.author.id, memory_summary, guild_id=context_guild_id)
      if "[RELATIONSHIP]" in full_response:
          ...
          if new_relationship:
              self.set_user_relationship(message.author.id, new_relationship, guild_id=context_guild_id)
      if reply_text:
          async with message.channel.typing():
              ...
              await message.reply(reply_text)
              self.boredom_level = 0
  except Exception as e:
      self.log.error(...)
  \<close>
\<close>

definition get_contextual_response ::
  "completion \<Rightarrow> bool \<Rightarrow> message \<Rightarrow> agent \<Rightarrow> agent \<times> string option" where
  "get_contextual_response response reply_ok m a =
     (if \<not> client a then (a, None)
      else
        (let gid = context_guild_id (guild m);
             a1 = a\<lparr>store :=
                     snd (get_user_profile (store a) (author_id m) (author_display_name m) gid)\<rparr>
         in (case response of
               Inl e \<Rightarrow> (a1, None)
             | Inr None \<Rightarrow> (a1, None)
             | Inr (Some text) \<Rightarrow>
                 (let full_response = strip text
                  in (case memorize_block full_response of
                        Inl e \<Rightarrow> (a1, None)
                      | Inr (reply1, memory_summary) \<Rightarrow>
                          (let a2 = (case memory_summary of
                                       None \<Rightarrow> a1
                                     | Some ms \<Rightarrow>
                                         if ms \<noteq> []
                                         then a1\<lparr>store :=
                                                  append_user_memory (store a1) (author_id m) ms gid\<rparr>
                                         else a1)
                           in (case relationship_block full_response reply1 of
                                 Inl e \<Rightarrow> (a2, None)
                               | Inr (reply_text, new_relationship) \<Rightarrow>
                                   (let a3 = (case new_relationship of
                                                None \<Rightarrow> a2
                                              | Some nr \<Rightarrow>
                                                  if nr \<noteq> []
                                                  then a2\<lparr>store :=
                                                           set_user_relationship (store a2)
                                                             (author_id m) nr gid\<rparr>
                                                  else a2)
                                    in if reply_text \<noteq> [] \<and> reply_ok
                                       then (a3\<lparr>boredom_level := 0\<rparr>, Some reply_text)
                                       else (a3, None)))))))))"

subsection \<open>The reactive cycle\<close>

text \<open>
  \<open>on_message\<close> up to its first \<open>await\<close>: the filters, the test of the busy bit, the
  addressing test and the setting of the bit. Nothing is awaited between the test and
  the setting, so under the cooperative scheduler of the source this part runs as one
  step. The result says whether a cycle was started.
  \<^verbatim>\<open>
  if message.author.id == self.bot.user.id or message.author.bot: return
  if message.author.id in self.bot.config.get('ignored_users', []): return
  if message.guild:
      server_settings = self._get_server_settings(message.guild.id)
      if not ... : return
  if self.is_thinking_in_channel.get(message.channel.id): return
  ...
  if not (is_mentioned or is_reply or triggered): return
  try:
      self.is_thinking_in_channel[message.channel.id] = True
  \<close>
\<close>

definition on_message_begin :: "config \<Rightarrow> int \<Rightarrow> message \<Rightarrow> agent \<Rightarrow> bool \<times> agent" where
  "on_message_begin cfg bot_id m a =
     (if author_id m = bot_id \<or> author_bot m then (False, a)
      else if author_id m \<in> set (case ignored_users cfg of None \<Rightarrow> [] | Some us \<Rightarrow> us)
      then (False, a)
      else if (case guild m of
                 Some g \<Rightarrow> \<not> channel_is_active cfg g (channel_id m)
               | None \<Rightarrow> False)
      then (False, a)
      else if is_thinking_in_channel a (channel_id m) = Some True then (False, a)
      else if \<not> is_addressed cfg bot_id m then (False, a)
      else (True, a\<lparr>is_thinking_in_channel :=
                      (is_thinking_in_channel a)(channel_id m \<mapsto> True)\<rparr>))"

text \<open>
  The inputs of the rest of a cycle: the outcome of the history call (the messages are
  only used to build prompts), of the two completion calls, and of the reply.
\<close>

record cycle_inputs =
  history_result :: "error option"
  decision :: completion
  response :: completion
  reply_ok :: bool

text \<open>
  The rest of \<open>on_message\<close>, from the first \<open>await\<close> to the end of the \<open>finally\<close> clause.
  The result is the agent and the exception that leaves \<open>on_message\<close>, if any.
  \<^verbatim>\<open>
      history = [msg async for msg in message.channel.history(limit=history_limit)]
      history.reverse()
      if await self._should_respond_to_message(message, history):
          await self.get_contextual_response(message, history)
  finally:
      self.is_thinking_in_channel.pop(message.channel.id, None)
  \<close>
\<close>

definition on_message_finish :: "cycle_inputs \<Rightarrow> message \<Rightarrow> agent \<Rightarrow> agent \<times> error option" where
  "on_message_finish i m a =
     (let (a1, raised) =
            (case history_result i of
               Some e \<Rightarrow> (a, Some e)
             | None \<Rightarrow>
                 (if should_respond_to_message (client a) (decision i)
                  then (fst (get_contextual_response (response i) (reply_ok i) m a), None)
                  else (a, None)))
      in (a1\<lparr>is_thinking_in_channel := (is_thinking_in_channel a1)(channel_id m := None)\<rparr>,
          raised))"

text \<open>
  The scheduler: messages arrive and started cycles finish in any order. \<open>in_flight\<close> is
  the list of the messages whose cycle has started and not finished. \<open>Finish\<close> of a
  message with no cycle in flight is no event of the program and changes nothing.
\<close>

datatype event = Arrive message | Finish message cycle_inputs

record system =
  agent_of :: agent
  in_flight :: "message list"

definition step :: "config \<Rightarrow> int \<Rightarrow> system \<Rightarrow> event \<Rightarrow> system" where
  "step cfg bot_id sys ev =
     (case ev of
        Arrive m \<Rightarrow>
          (case on_message_begin cfg bot_id m (agent_of sys) of
             (started, a) \<Rightarrow>
               \<lparr>agent_of = a,
                in_flight = (if started then m # in_flight sys else in_flight sys)\<rparr>)
      | Finish m i \<Rightarrow>
          (if m \<in> set (in_flight sys)
           then \<lparr>agent_of = fst (on_message_finish i m (agent_of sys)),
                 in_flight = remove1 m (in_flight sys)\<rparr>
           else sys))"

definition run :: "config \<Rightarrow> int \<Rightarrow> system \<Rightarrow> event list \<Rightarrow> system" where
  "run cfg bot_id sys evs = foldl (step cfg bot_id) sys evs"

text \<open>The agent as \<open>__init__\<close> leaves it, and the system at startup.\<close>

definition init_agent :: "bool \<Rightarrow> memories \<Rightarrow> reaction_log \<Rightarrow> agent" where
  "init_agent has_client db log =
     \<lparr>boredom_level = 0, is_thinking_in_channel = Map.empty, stealth_mode = False,
      client = has_client, store = db, reaction_log = log\<rparr>"

definition init_system :: "bool \<Rightarrow> memories \<Rightarrow> reaction_log \<Rightarrow> system" where
  "init_system has_client db log = \<lparr>agent_of = init_agent has_client db log, in_flight = []\<rparr>"

text \<open>The number of cycles in flight in a channel.\<close>

definition cycles_in_flight :: "system \<Rightarrow> int \<Rightarrow> nat" where
  "cycles_in_flight sys cid = length (filter (\<lambda>m. channel_id m = cid) (in_flight sys))"

text \<open>
  The invariant of the guard: the cycles in flight are in pairwise different channels, and
  the busy bit of the channel of each is set.
\<close>

definition guard_inv :: "system \<Rightarrow> bool" where
  "guard_inv sys =
     (distinct (map channel_id (in_flight sys)) \<and>
      list_all (\<lambda>m. is_thinking_in_channel (agent_of sys) (channel_id m) = Some True)
        (in_flight sys))"

section \<open>The periodic tasks\<close>

text \<open>
  What the tasks read of the platform: the guilds of the bot with their text channels,
  the two permissions of the bot in each channel, and the channel cache behind
  \<open>self.bot.get_channel\<close>.
\<close>

record channel =
  ch_id :: int
  ch_guild :: int
  send_messages :: bool
  add_reactions :: bool

record guild_info =
  g_id :: int
  text_channels :: "channel list"

record platform =
  guilds :: "guild_info list"
  get_channel :: "int \<rightharpoonup> channel"

text \<open>
  \<open>get_eligible_channels\<close> (in the source \<open>_get_eligible_channels\<close>); the permission
  name is given as the field to read.
  \<^verbatim>\<open>
  for guild in self.bot.guilds:
      settings = self._get_server_settings(guild.id)
      if settings.get("is_active_in_all_channels"):
          for channel in guild.text_channels:
              if getattr(channel.permissions_for(guild.me), permission_check, False):
                  target_channels.append(channel)
      else:
          for channel_id in settings.get("active_channels", []):
              channel = self.bot.get_channel(channel_id)
              if channel and channel.guild.id == guild.id and getattr(...):
                  target_channels.append(channel)
  \<close>
\<close>

definition get_eligible_channels ::
  "config \<Rightarrow> platform \<Rightarrow> (channel \<Rightarrow> bool) \<Rightarrow> channel list" where
  "get_eligible_channels cfg p permission_check =
     concat (map (\<lambda>g.
       (let s = get_server_settings cfg (g_id g)
        in if is_active_in_all_channels s = Some True
           then filter permission_check (text_channels g)
           else concat (map (\<lambda>cid.
                  (case get_channel p cid of
                     None \<Rightarrow> []
                   | Some c \<Rightarrow> if ch_guild c = g_id g \<and> permission_check c then [c] else []))
                  (case active_channels s of None \<Rightarrow> [] | Some cs \<Rightarrow> cs))))
       (guilds p))"

text \<open>\<open>random.choice(xs)\<close> on a non-empty list, the draw being an input.\<close>

definition random_choice :: "nat \<Rightarrow> 'a list \<Rightarrow> 'a" where
  "random_choice draw xs = xs ! (draw mod length xs)"

subsection \<open>The boredom loop\<close>

text \<open>
  The inputs of one tick: the random draw, the exception of the history call if it
  raises (it is outside the \<open>try\<close>), the outcome of the completion call, and whether
  typing and sending succeed.
\<close>

record outreach_inputs =
  draw :: nat
  outreach_history :: "error option"
  outreach_completion :: completion
  send_ok :: bool

text \<open>
  \<open>autonomous_message_loop\<close>: one tick. The result is the agent, the channel and text of
  the message sent, if any, and the exception that leaves the body, if any.
  \<^verbatim>\<open>
  if self.stealth_mode or not self.client: return
  self.boredom_level += 1
  boredom_threshold = self.bot.config.get("boredom_threshold", 120)
  if self.boredom_level < boredom_threshold: return
  target_channels = self._get_eligible_channels('send_messages')
  if not target_channels: return
  channel = random.choice(target_channels)
  history = [msg async for msg in channel.history(limit=5)]
  try:
      response = await ...generate_content(...)
      if response.text:
          message_text = response.text.strip()
          async with channel.typing():
              ...
              await channel.send(message_text)
          self.boredom_level = 0
  except Exception as e:
      self.log.error(...)
  \<close>
\<close>

definition autonomous_message_loop ::
  "config \<Rightarrow> platform \<Rightarrow> outreach_inputs \<Rightarrow> agent \<Rightarrow>
     agent \<times> (int \<times> string) option \<times> error option" where
  "autonomous_message_loop cfg p i a =
     (if stealth_mode a \<or> \<not> client a then (a, None, None)
      else
        (let a1 = a\<lparr>boredom_level := boredom_level a + 1\<rparr>;
             threshold = (case boredom_threshold cfg of None \<Rightarrow> 120 | Some t \<Rightarrow> t)
         in if boredom_level a1 < threshold then (a1, None, None)
            else
              (let target_channels = get_eligible_channels cfg p send_messages
               in if target_channels = [] then (a1, None, None)
                  else
                    (let ch = random_choice (draw i) target_channels
                     in (case outreach_history i of
                           Some e \<Rightarrow> (a1, None, Some e)
                         | None \<Rightarrow>
                             (case outreach_completion i of
                                Inl e \<Rightarrow> (a1, None, None)
                              | Inr None \<Rightarrow> (a1, None, None)
                              | Inr (Some text) \<Rightarrow>
                                  if text \<noteq> [] \<and> send_ok i
                                  then (a1\<lparr>boredom_level := 0\<rparr>,
                                        Some (ch_id ch, strip text), None)
                                  else (a1, None, None)))))))"

subsection \<open>The reaction loop\<close>

text \<open>
  The scan of the messages of the chosen channel, newest first. \<open>emoji\<close> gives the outcome
  of the completion call for a message id, \<open>react_ok\<close> whether \<open>message.add_reaction\<close>
  succeeds, \<open>now\<close> the time of the insert. The result is the log, the id of the message
  reacted to, if any, and the exception that ended the scan, if any.
  \<^verbatim>\<open>
  async for message in channel.history(limit=10):
      cursor.execute("SELECT 1 FROM reacted_messages WHERE message_id = ?", (message.id,))
      if cursor.fetchone(): continue
      response = await ...generate_content(...)
      reaction_emoji = response.text.strip()
      if reaction_emoji:
          await message.add_reaction(reaction_emoji)
          cursor.execute("INSERT INTO reacted_messages (message_id) VALUES (?)", (message.id,))
          self.db.commit()
          break
  \<close>
\<close>

fun react_scan ::
  "(int \<Rightarrow> completion) \<Rightarrow> (int \<Rightarrow> bool) \<Rightarrow> nat \<Rightarrow> message list \<Rightarrow> reaction_log \<Rightarrow>
     reaction_log \<times> int option \<times> error option" where
  "react_scan emoji react_ok now [] log = (log, None, None)"
| "react_scan emoji react_ok now (m # ms) log =
     (if has log (message_id m) then react_scan emoji react_ok now ms log
      else
        (case emoji (message_id m) of
           Inl e \<Rightarrow> (log, None, Some e)
         | Inr None \<Rightarrow> (log, None, Some AttributeError)
         | Inr (Some text) \<Rightarrow>
             if strip text \<noteq> []
             then (if react_ok (message_id m)
                   then (case record_reaction now log (message_id m) of
                           Inl e \<Rightarrow> (log, Some (message_id m), Some e)
                         | Inr log' \<Rightarrow> (log', Some (message_id m), None))
                   else (log, None, Some HTTPException))
             else react_scan emoji react_ok now ms log))"

record reaction_inputs =
  reaction_draw :: nat
  reaction_history :: "error + message list"
  emoji :: "int \<Rightarrow> completion"
  react_ok :: "int \<Rightarrow> bool"
  now :: nat

text \<open>
  \<open>autonomous_reaction_loop\<close>: one tick; every exception is caught and logged.
  \<^verbatim>\<open>
  if self.stealth_mode or not self.client: return
  try:
      target_channels = self._get_eligible_channels('add_reactions')
      if not target_channels: return
      channel = random.choice(target_channels)
      ...
  except Exception as e:
      self.log.error(...)
  \<close>
\<close>

definition autonomous_reaction_loop ::
  "config \<Rightarrow> platform \<Rightarrow> reaction_inputs \<Rightarrow> agent \<Rightarrow> agent" where
  "autonomous_reaction_loop cfg p i a =
     (if stealth_mode a \<or> \<not> client a then a
      else if get_eligible_channels cfg p add_reactions = [] then a
      else (case reaction_history i of
              Inl e \<Rightarrow> a
            | Inr msgs \<Rightarrow>
                a\<lparr>reaction_log :=
                    fst (react_scan (emoji i) (react_ok i) (now i) msgs (reaction_log a))\<rparr>))"

section \<open>Sample inputs\<close>

text \<open>A store with one profile, of user 1 in the global scope.\<close>

definition sample_store :: memories where
  "sample_store = [((1, 0), \<lparr>user_name = Some ''ann'', notes = ''- likes cats'',
                             relationship_status = ''friendly''\<rparr>)]"

text \<open>A configuration whose activation policy excludes every channel of every guild.\<close>

definition sample_config :: config where
  "sample_config = \<lparr>ignored_users = Some [13], trigger_words = Some [''bot''],
                     server_settings = Some [''default'' \<mapsto>
                        \<lparr>is_active_in_all_channels = Some False, active_channels = Some []\<rparr>],
                     boredom_threshold = Some 3\<rparr>"

text \<open>Two direct messages in channel 5 to the bot, whose id is 99: a mention and a trigger
  word.\<close>

definition sample_dm :: message where
  "sample_dm = \<lparr>message_id = 1001, author_id = 7, author_bot = False,
                 author_display_name = ''ann'', guild = None, channel_id = 5,
                 mentions = [99], reference_author = None, content = ''hello''\<rparr>"

definition sample_dm2 :: message where
  "sample_dm2 = \<lparr>message_id = 1002, author_id = 8, author_bot = False,
                 author_display_name = ''bob'', guild = None, channel_id = 5,
                 mentions = [], reference_author = None, content = ''hey Bot, you there?''\<rparr>"

text \<open>The agent after startup, with the sample store.\<close>

definition sample_agent :: agent where
  "sample_agent = init_agent True sample_store Map.empty"

text \<open>The system at startup, with the sample store.\<close>

definition sample_system :: system where
  "sample_system = init_system True sample_store Map.empty"

text \<open>
  A platform with one guild, 42, and one text channel, 5, where the bot may send and
  react; a configuration that activates every channel of guild 42, with threshold 3; and
  the inputs of a tick whose completion and sending succeed.
\<close>

definition sample_platform :: platform where
  "sample_platform =
     (let ch = \<lparr>ch_id = 5, ch_guild = 42, send_messages = True, add_reactions = True\<rparr>
      in \<lparr>guilds = [\<lparr>g_id = 42, text_channels = [ch]\<rparr>], get_channel = [5 \<mapsto> ch]\<rparr>)"

definition open_config :: config where
  "open_config = \<lparr>ignored_users = None, trigger_words = None,
                   server_settings = Some [''42'' \<mapsto>
                      \<lparr>is_active_in_all_channels = Some True, active_channels = None\<rparr>],
                   boredom_threshold = Some 3\<rparr>"

definition sample_outreach :: outreach_inputs where
  "sample_outreach = \<lparr>draw = 0, outreach_history = None,
                       outreach_completion = Inr (Some ''anyone around? ''), send_ok = True\<rparr>"

text \<open>
  The sample agent with the counter at 5, in stealth mode, and without completion
  service.
\<close>

definition stealthy_agent :: agent where
  "stealthy_agent = sample_agent\<lparr>stealth_mode := True, boredom_level := 5\<rparr>"

definition offline_agent :: agent where
  "offline_agent = sample_agent\<lparr>client := False, boredom_level := 5\<rparr>"

text \<open>
  A completion with no directive.
\<close>

definition sample_reply :: completion where
  "sample_reply = Inr (Some ''Hello there'')"


text \<open>
  A legacy table of two rows, the second with NULL notes, and the file that holds it.
\<close>

definition legacy_rows :: "legacy_row list" where
  "legacy_rows =
     [\<lparr>l_user_id = Some 7, l_user_name = Some ''ann'', l_notes = Some ''- likes cats'',
       l_relationship_status = Some ''friendly''\<rparr>,
      \<lparr>l_user_id = Some 8, l_user_name = Some ''bob'', l_notes = None,
       l_relationship_status = Some ''neutral''\<rparr>]"

definition legacy_database :: database where
  "legacy_database =
     \<lparr>memories = Some (Legacy legacy_rows), memories_old = None, reacted_messages = None\<rparr>"

text \<open>
  The reply \<open>Hello there\<close> followed by a memorize line and a relationship line, in both
  orders, with the markers of the source; and with the markers spelt \<open>MEMORIZE:\<close> and
  \<open>RELATIONSHIP:\<close>.
\<close>

definition both_directives :: string where
  "both_directives =
     ''Hello there'' @ [CHR 0x0A] @ ''[MEMORIZE]likes cats'' @ [CHR 0x0A] @
     ''[RELATIONSHIP]friendly''"

definition reversed_directives :: string where
  "reversed_directives =
     ''Hello there'' @ [CHR 0x0A] @ ''[RELATIONSHIP]friendly'' @ [CHR 0x0A] @
     ''[MEMORIZE]likes cats''"

definition colon_directives :: string where
  "colon_directives =
     ''Hello there'' @ [CHR 0x0A] @ ''MEMORIZE:likes cats'' @ [CHR 0x0A] @
     ''RELATIONSHIP:friendly''"

section \<open>Properties of the memory store\<close>

lemma update_rows_absent: "map_of db k = None \<Longrightarrow> update_rows f k db = db"
  unfolding update_rows_def map_of_eq_None_iff
  by (induction db) auto

text \<open>
  C9: for a key with no row in the store, \<open>set_user_notes\<close> and \<open>set_user_relationship\<close>
  leave the store as it is: the UPDATE matches no row and creates none. So does the
  administrative clear command for a user who was never profiled in the scope of the
  command.
\<close>

theorem set_on_absent_key_unchanged:
  "map_of db (uid, gid) = None \<Longrightarrow>
     set_user_notes db uid new_notes gid = db \<and>
     set_user_relationship db uid status gid = db \<and>
     (context_guild_id ctx_guild = gid \<longrightarrow> memory_clear db ctx_guild uid = db)"
  by (simp add: set_user_notes_def set_user_relationship_def memory_clear_def update_rows_absent)

theorem set_on_absent_key_unchanged_witness:
  "map_of sample_store (2, 0) = None \<and>
   set_user_notes sample_store 2 ''- new'' 0 = sample_store \<and>
   set_user_relationship sample_store 2 ''wary'' 0 = sample_store \<and>
   context_guild_id None = 0 \<and>
   memory_clear sample_store None 2 = sample_store"
proof -
  have absent: "map_of sample_store (2, 0) = None"
    by (simp add: sample_store_def)
  have g: "context_guild_id None = 0"
    by (simp add: context_guild_id_def)
  from set_on_absent_key_unchanged [OF absent, of "''- new''" "''wary''" None] absent g
  show ?thesis by simp
qed

section \<open>Properties of the reactive cycle\<close>

lemma is_addressed_server_settings [simp]:
  "is_addressed (cfg\<lparr>server_settings := ss\<rparr>) bot_id m = is_addressed cfg bot_id m"
  by (simp add: is_addressed_def)

text \<open>
  C10: a message with no guild (a direct message) is never tested against the activation
  policy. Whatever the policy \<open>policy\<close> is, a direct message that passes the author, bot
  and ignored-user filters, is addressed and finds its channel not busy starts a cycle:
  \<open>on_message_begin\<close> sets the busy bit and reports the start.
\<close>

theorem direct_message_bypasses_policy:
  "guild m = None \<Longrightarrow> author_id m \<noteq> bot_id \<Longrightarrow> \<not> author_bot m \<Longrightarrow>
   author_id m \<notin> set (case ignored_users cfg of None \<Rightarrow> [] | Some us \<Rightarrow> us) \<Longrightarrow>
   is_addressed cfg bot_id m \<Longrightarrow>
   is_thinking_in_channel a (channel_id m) \<noteq> Some True \<Longrightarrow>
   on_message_begin (cfg\<lparr>server_settings := policy\<rparr>) bot_id m a =
     (True, a\<lparr>is_thinking_in_channel := (is_thinking_in_channel a)(channel_id m \<mapsto> True)\<rparr>)"
  by (simp add: on_message_begin_def)

lemma sample_dm_addressed: "is_addressed sample_config 99 sample_dm"
  by (simp add: is_addressed_def sample_config_def sample_dm_def)

lemma sample_dm2_addressed: "is_addressed sample_config 99 sample_dm2"
  by (simp add: is_addressed_def sample_config_def sample_dm2_def search_word_def matches_at_def word_boundary_def is_word_char_def lower_def lower_char_def)

theorem direct_message_bypasses_policy_witness:
  "guild sample_dm = None \<and> author_id sample_dm \<noteq> 99 \<and> \<not> author_bot sample_dm \<and>
   author_id sample_dm \<notin> set (case ignored_users sample_config of None \<Rightarrow> [] | Some us \<Rightarrow> us) \<and>
   is_addressed sample_config 99 sample_dm \<and>
   is_thinking_in_channel sample_agent (channel_id sample_dm) \<noteq> Some True \<and>
   \<not> channel_is_active sample_config 42 (channel_id sample_dm) \<and>
   on_message_begin sample_config 99 sample_dm sample_agent =
     (True, sample_agent\<lparr>is_thinking_in_channel := [5 \<mapsto> True]\<rparr>) \<and>
   on_message_begin sample_config 99 (sample_dm\<lparr>guild := Some 42\<rparr>) sample_agent =
     (False, sample_agent)"
proof -
  have h1: "guild sample_dm = None" by (simp add: sample_dm_def)
  have h2: "author_id sample_dm \<noteq> 99" by (simp add: sample_dm_def)
  have h3: "\<not> author_bot sample_dm" by (simp add: sample_dm_def)
  have h4: "author_id sample_dm \<notin> set (case ignored_users sample_config of None \<Rightarrow> [] | Some us \<Rightarrow> us)"
    by (simp add: sample_dm_def sample_config_def)
  have h5: "is_addressed sample_config 99 sample_dm" by (rule sample_dm_addressed)
  have h6: "is_thinking_in_channel sample_agent (channel_id sample_dm) \<noteq> Some True"
    by (simp add: sample_agent_def init_agent_def)
  have p: "\<not> channel_is_active sample_config 42 (channel_id sample_dm)"
    by (simp add: channel_is_active_def get_server_settings_def sample_config_def sample_dm_def str_of_int_def)
  have same: "sample_config\<lparr>server_settings := server_settings sample_config\<rparr> = sample_config"
    by simp
  have c5: "channel_id sample_dm = 5" by (simp add: sample_dm_def)
  have e: "is_thinking_in_channel sample_agent = Map.empty" by (simp add: sample_agent_def init_agent_def)
  have g: "on_message_begin sample_config 99 (sample_dm\<lparr>guild := Some 42\<rparr>) sample_agent =
     (False, sample_agent)"
    using p h2 h3 h4 by (simp add: on_message_begin_def)
  from direct_message_bypasses_policy [OF h1 h2 h3 h4 h5 h6, of "server_settings sample_config"]
  show ?thesis using h1 h2 h3 h4 h5 h6 p g by (simp add: same c5 e)
qed

subsection \<open>The guard\<close>

lemma get_contextual_response_thinking:
  "is_thinking_in_channel (fst (get_contextual_response r ok m a)) = is_thinking_in_channel a"
  by (simp add: get_contextual_response_def Let_def split: sum.split option.split prod.split)

lemma on_message_finish_thinking:
  "is_thinking_in_channel (fst (on_message_finish i m a)) =
     (is_thinking_in_channel a)(channel_id m := None)"
  by (simp add: on_message_finish_def get_contextual_response_thinking split: option.split)

lemma on_message_begin_cases:
  "on_message_begin cfg bot_id m a = (False, a) \<or>
   (is_thinking_in_channel a (channel_id m) \<noteq> Some True \<and>
    on_message_begin cfg bot_id m a =
      (True, a\<lparr>is_thinking_in_channel := (is_thinking_in_channel a)(channel_id m \<mapsto> True)\<rparr>))"
  by (simp add: on_message_begin_def)

lemma on_message_begin_busy:
  "is_thinking_in_channel a (channel_id m) = Some True \<Longrightarrow>
   on_message_begin cfg bot_id m a = (False, a)"
  by (simp add: on_message_begin_def)

lemma distinct_map_remove1: "distinct (map f xs) \<Longrightarrow> distinct (map f (remove1 x xs))"
proof (induction xs)
  case Nil
  then show ?case by simp
next
  case (Cons y ys)
  have "set (remove1 x ys) \<subseteq> set ys" by (rule set_remove1_subset)
  with Cons show ?case by auto
qed

lemma remove1_other_key:
  "distinct (map f xs) \<Longrightarrow> x \<in> set xs \<Longrightarrow> y \<in> set (remove1 x xs) \<Longrightarrow> f y \<noteq> f x"
proof (induction xs)
  case Nil
  then show ?case by simp
next
  case (Cons z zs)
  have sub: "set (remove1 x zs) \<subseteq> set zs" by (rule set_remove1_subset)
  show ?case
  proof (cases "x = z")
    case True
    with Cons.prems have "y \<in> set zs" and "f z \<notin> f ` set zs" by simp_all
    with True show ?thesis by (metis imageI)
  next
    case False
    with Cons.prems have x: "x \<in> set zs" by simp
    from Cons.prems False have "y = z \<or> y \<in> set (remove1 x zs)" by simp
    then show ?thesis
    proof
      assume "y = z"
      with Cons.prems x show ?thesis by force
    next
      assume "y \<in> set (remove1 x zs)"
      with Cons.IH Cons.prems x show ?thesis by simp
    qed
  qed
qed

lemma guard_inv_step: 
  assumes inv: "guard_inv sys"
  shows "guard_inv (step cfg bot_id sys ev)"
proof (cases ev)
  case (Arrive m)
  from on_message_begin_cases [of cfg bot_id m "agent_of sys"] show ?thesis
  proof
    assume "on_message_begin cfg bot_id m (agent_of sys) = (False, agent_of sys)"
    with inv Arrive show ?thesis by (simp add: step_def guard_inv_def)
  next
    assume "is_thinking_in_channel (agent_of sys) (channel_id m) \<noteq> Some True \<and>
      on_message_begin cfg bot_id m (agent_of sys) =
      (True, (agent_of sys)\<lparr>is_thinking_in_channel :=
         (is_thinking_in_channel (agent_of sys))(channel_id m \<mapsto> True)\<rparr>)"
    with inv Arrive show ?thesis by (auto simp add: step_def guard_inv_def list_all_iff)
  qed
next
  case (Finish m i)
  show ?thesis
  proof (cases "m \<in> set (in_flight sys)")
    case False
    with inv Finish show ?thesis by (simp add: step_def)
  next
    case True
    from inv have d: "distinct (map channel_id (in_flight sys))" by (simp add: guard_inv_def)
    have sub: "set (remove1 m (in_flight sys)) \<subseteq> set (in_flight sys)" by (rule set_remove1_subset)
    have other: "\<And>y. y \<in> set (remove1 m (in_flight sys)) \<Longrightarrow> channel_id y \<noteq> channel_id m"
      using remove1_other_key [OF d True] .
    from inv True Finish sub other show ?thesis
      by (auto simp add: step_def guard_inv_def list_all_iff on_message_finish_thinking
            distinct_map_remove1 [OF d])
  qed
qed

lemma guard_inv_run: "guard_inv sys \<Longrightarrow> guard_inv (run cfg bot_id sys evs)"
  unfolding run_def
  by (induction evs arbitrary: sys) (simp_all add: guard_inv_step)

lemma guard_inv_init: "guard_inv (init_system hc db log)"
  by (simp add: guard_inv_def init_system_def)

lemma distinct_map_filter_le_1:
  "distinct (map f xs) \<Longrightarrow> length (filter (\<lambda>x. f x = c) xs) \<le> 1"
proof (induction xs)
  case Nil
  then show ?case by simp
next
  case (Cons x xs)
  show ?case
  proof (cases "f x = c")
    case True
    with Cons.prems have "f x \<notin> f ` set xs" by simp
    with True have "\<forall>y \<in> set xs. f y \<noteq> c" by (metis imageI)
    then have "filter (\<lambda>x. f x = c) xs = []" by (simp add: filter_empty_conv)
    with True show ?thesis by simp
  next
    case False
    with Cons show ?thesis by simp
  qed
qed

lemma guard_inv_at_most_one: "guard_inv sys \<Longrightarrow> cycles_in_flight sys cid \<le> 1"
  using distinct_map_filter_le_1 [of channel_id "in_flight sys" cid]
  by (simp add: guard_inv_def cycles_in_flight_def)

text \<open>
  C4: in every channel at most one reactive cycle is in flight at any time, after any
  sequence of arrivals and completions from startup. While the busy bit of a channel is
  set, a further message for it is dropped and not queued: the arrival leaves the whole
  system as it was. So of two messages for one channel, the first of which starts a
  cycle, exactly the first is processed. The rest of a cycle clears the busy bit for any
  inputs \<open>i\<close> whatever: a history call that raises, a classifier that declines or fails,
  a reply that is sent or fails.
\<close>

theorem single_flight_per_channel:
  "cycles_in_flight (run cfg bot_id (init_system has_client db log) evs) cid \<le> 1 \<and>
   (is_thinking_in_channel (agent_of sys) (channel_id m) = Some True \<longrightarrow>
      step cfg bot_id sys (Arrive m) = sys) \<and>
   (fst (on_message_begin cfg bot_id m1 (agent_of sys0)) \<and> channel_id m2 = channel_id m1 \<longrightarrow>
      run cfg bot_id sys0 [Arrive m1, Arrive m2] = run cfg bot_id sys0 [Arrive m1] \<and>
      in_flight (run cfg bot_id sys0 [Arrive m1, Arrive m2]) = m1 # in_flight sys0) \<and>
   is_thinking_in_channel (fst (on_message_finish i m a)) (channel_id m) = None"
proof (intro conjI impI)
  show "cycles_in_flight (run cfg bot_id (init_system has_client db log) evs) cid \<le> 1"
    by (rule guard_inv_at_most_one, rule guard_inv_run, rule guard_inv_init)
next
  assume "is_thinking_in_channel (agent_of sys) (channel_id m) = Some True"
  then show "step cfg bot_id sys (Arrive m) = sys"
    by (simp add: step_def on_message_begin_busy)
next
  assume h: "fst (on_message_begin cfg bot_id m1 (agent_of sys0)) \<and> channel_id m2 = channel_id m1"
  with on_message_begin_cases [of cfg bot_id m1 "agent_of sys0"]
  have b: "on_message_begin cfg bot_id m1 (agent_of sys0) =
      (True, (agent_of sys0)\<lparr>is_thinking_in_channel :=
         (is_thinking_in_channel (agent_of sys0))(channel_id m1 \<mapsto> True)\<rparr>)"
    by auto
  from h have c: "channel_id m2 = channel_id m1" by simp
  show "run cfg bot_id sys0 [Arrive m1, Arrive m2] = run cfg bot_id sys0 [Arrive m1]"
    by (simp add: run_def step_def b c on_message_begin_busy)
  show "in_flight (run cfg bot_id sys0 [Arrive m1, Arrive m2]) = m1 # in_flight sys0"
    by (simp add: run_def step_def b c on_message_begin_busy)
next
  show "is_thinking_in_channel (fst (on_message_finish i m a)) (channel_id m) = None"
    by (simp add: on_message_finish_thinking)
qed

theorem single_flight_per_channel_witness:
  "fst (on_message_begin sample_config 99 sample_dm (agent_of sample_system)) \<and>
   channel_id sample_dm2 = channel_id sample_dm \<and>
   is_addressed sample_config 99 sample_dm2 \<and>
   is_thinking_in_channel (agent_of (step sample_config 99 sample_system (Arrive sample_dm)))
     (channel_id sample_dm2) = Some True \<and>
   step sample_config 99 (step sample_config 99 sample_system (Arrive sample_dm)) (Arrive sample_dm2) =
     step sample_config 99 sample_system (Arrive sample_dm) \<and>
   in_flight (run sample_config 99 sample_system [Arrive sample_dm, Arrive sample_dm2]) = [sample_dm] \<and>
   cycles_in_flight (run sample_config 99 sample_system [Arrive sample_dm, Arrive sample_dm2]) 5 = 1"
proof -
  have b: "on_message_begin sample_config 99 sample_dm (agent_of sample_system) =
      (True, (agent_of sample_system)\<lparr>is_thinking_in_channel := [5 \<mapsto> True]\<rparr>)"
    using sample_dm_addressed
    by (simp add: on_message_begin_def sample_system_def init_system_def init_agent_def
          sample_dm_def sample_config_def)
  have h1: "fst (on_message_begin sample_config 99 sample_dm (agent_of sample_system))"
    by (simp add: b)
  have h2: "channel_id sample_dm2 = channel_id sample_dm"
    by (simp add: sample_dm_def sample_dm2_def)
  have h3: "is_thinking_in_channel (agent_of (step sample_config 99 sample_system (Arrive sample_dm)))
     (channel_id sample_dm2) = Some True"
    by (simp add: step_def b sample_dm2_def)
  have e: "in_flight sample_system = []"
    by (simp add: sample_system_def init_system_def)
  note t1 = single_flight_per_channel [of sample_config 99 True sample_store Map.empty
      "[Arrive sample_dm, Arrive sample_dm2]" 5
      "step sample_config 99 sample_system (Arrive sample_dm)" sample_dm2
      sample_dm sample_system sample_dm2]
  from t1 h3 have
    s: "step sample_config 99 (step sample_config 99 sample_system (Arrive sample_dm)) (Arrive sample_dm2) =
     step sample_config 99 sample_system (Arrive sample_dm)"
    by blast
  from t1 h1 h2 have
    "in_flight (run sample_config 99 sample_system [Arrive sample_dm, Arrive sample_dm2]) =
       sample_dm # in_flight sample_system"
    by blast
  then have
    f: "in_flight (run sample_config 99 sample_system [Arrive sample_dm, Arrive sample_dm2]) = [sample_dm]"
    by (simp only: e)
  have c: "cycles_in_flight (run sample_config 99 sample_system [Arrive sample_dm, Arrive sample_dm2]) 5 = 1"
  proof -
    have "channel_id sample_dm = 5" by (simp add: sample_dm_def)
    then show ?thesis by (simp add: cycles_in_flight_def f)
  qed
  from h1 h2 h3 s f c sample_dm2_addressed show ?thesis by simp
qed

section \<open>Properties of the boredom counter\<close>

lemma sample_eligible: "get_eligible_channels open_config sample_platform send_messages =
   [\<lparr>ch_id = 5, ch_guild = 42, send_messages = True, add_reactions = True\<rparr>]"
  by (simp add: get_eligible_channels_def open_config_def sample_platform_def
        get_server_settings_def str_of_int_def Let_def)

text \<open>
  C3, as stated, fails: on a tick with the StealthFlag set, and on a tick with no
  completion service, the counter is not incremented. The guard of the loop returns
  before the increment.
\<close>

theorem boredom_tick_stealth_counterexample:
  "stealth_mode stealthy_agent \<and>
   boredom_level (fst (autonomous_message_loop open_config sample_platform sample_outreach
      stealthy_agent)) \<noteq> boredom_level stealthy_agent + 1 \<and>
   \<not> client offline_agent \<and>
   boredom_level (fst (autonomous_message_loop open_config sample_platform sample_outreach
      offline_agent)) \<noteq> boredom_level offline_agent + 1"
  by (simp add: autonomous_message_loop_def stealthy_agent_def offline_agent_def
        sample_agent_def init_agent_def)

lemma get_contextual_response_boredom:
  "boredom_level (fst (get_contextual_response r ok m a)) =
     (if snd (get_contextual_response r ok m a) = None then boredom_level a else 0)"
  by (simp add: get_contextual_response_def Let_def split: sum.split option.split prod.split)

text \<open>
  C3, amended: a tick with the StealthFlag set or without completion service changes
  nothing, the counter included, and performs no action. Any other tick increments the
  counter by exactly one, and resets it to zero if it then sends an outreach message: it
  ends one higher when nothing was sent and at zero when a message was sent. A reactive
  reply that is sent resets the counter to zero.
\<close>

theorem boredom_counter_ticks:
  "(stealth_mode a \<or> \<not> client a \<longrightarrow>
      autonomous_message_loop cfg p i a = (a, None, None)) \<and>
   (\<not> stealth_mode a \<and> client a \<longrightarrow>
      boredom_level (fst (autonomous_message_loop cfg p i a)) =
        (if fst (snd (autonomous_message_loop cfg p i a)) = None
         then boredom_level a + 1 else 0)) \<and>
   (snd (get_contextual_response r ok m a) \<noteq> None \<longrightarrow>
      boredom_level (fst (get_contextual_response r ok m a)) = 0)"
proof (intro conjI impI)
  assume "stealth_mode a \<or> \<not> client a"
  then show "autonomous_message_loop cfg p i a = (a, None, None)"
    by (auto simp add: autonomous_message_loop_def)
next
  assume "\<not> stealth_mode a \<and> client a"
  then show "boredom_level (fst (autonomous_message_loop cfg p i a)) =
        (if fst (snd (autonomous_message_loop cfg p i a)) = None
         then boredom_level a + 1 else 0)"
    by (simp add: autonomous_message_loop_def Let_def split: sum.split option.split)
next
  assume "snd (get_contextual_response r ok m a) \<noteq> None"
  then show "boredom_level (fst (get_contextual_response r ok m a)) = 0"
    by (auto simp add: get_contextual_response_boredom)
qed

theorem boredom_counter_ticks_witness:
  "(stealth_mode stealthy_agent \<or> \<not> client stealthy_agent) \<and>
   autonomous_message_loop open_config sample_platform sample_outreach stealthy_agent =
     (stealthy_agent, None, None) \<and>
   \<not> stealth_mode sample_agent \<and> client sample_agent \<and>
   boredom_level (fst (autonomous_message_loop open_config sample_platform sample_outreach
     sample_agent)) = boredom_level sample_agent + 1 \<and>
   autonomous_message_loop open_config sample_platform sample_outreach sample_agent =
     (sample_agent\<lparr>boredom_level := 1\<rparr>, None, None) \<and>
   autonomous_message_loop open_config sample_platform sample_outreach
     (sample_agent\<lparr>boredom_level := 2\<rparr>) =
     (sample_agent\<lparr>boredom_level := 0\<rparr>, Some (5, ''anyone around?''), None) \<and>
   snd (get_contextual_response sample_reply True sample_dm (sample_agent\<lparr>boredom_level := 7\<rparr>)) =
     Some ''Hello there'' \<and>
   boredom_level (fst (get_contextual_response sample_reply True sample_dm
     (sample_agent\<lparr>boredom_level := 7\<rparr>))) = 0"
proof -
  let ?stealthy = stealthy_agent
  let ?bored = "sample_agent\<lparr>boredom_level := 7\<rparr>"
  have s: "stealth_mode ?stealthy \<or> \<not> client ?stealthy" by (simp add: stealthy_agent_def)
  have n: "\<not> stealth_mode sample_agent \<and> client sample_agent"
    by (simp add: sample_agent_def init_agent_def)
  have t1: "autonomous_message_loop open_config sample_platform sample_outreach sample_agent =
     (sample_agent\<lparr>boredom_level := 1\<rparr>, None, None)"
    by (simp add: autonomous_message_loop_def sample_agent_def init_agent_def open_config_def)
  have t2: "autonomous_message_loop open_config sample_platform sample_outreach
     (sample_agent\<lparr>boredom_level := 2\<rparr>) =
     (sample_agent\<lparr>boredom_level := 0\<rparr>, Some (5, ''anyone around?''), None)"
    using sample_eligible
    by (simp add: autonomous_message_loop_def sample_agent_def init_agent_def Let_def
          random_choice_def sample_outreach_def strip_def is_space_def)
      (simp add: open_config_def)
  have r: "snd (get_contextual_response sample_reply True sample_dm ?bored) = Some ''Hello there''"
    by (simp add: get_contextual_response_def sample_reply_def sample_agent_def init_agent_def
          Let_def memorize_block_def relationship_block_def MEMORIZE_def RELATIONSHIP_def
          strip_def is_space_def)
  then have r': "snd (get_contextual_response sample_reply True sample_dm ?bored) \<noteq> None"
    by simp
  note t = boredom_counter_ticks [of ?stealthy open_config sample_platform sample_outreach
      sample_reply True sample_dm]
  note u = boredom_counter_ticks [of ?bored open_config sample_platform sample_outreach
      sample_reply True sample_dm]
  from t s have a: "autonomous_message_loop open_config sample_platform sample_outreach ?stealthy =
     (?stealthy, None, None)" by blast
  from u r' have b: "boredom_level (fst (get_contextual_response sample_reply True sample_dm ?bored)) = 0"
    by blast
  note v = boredom_counter_ticks [of sample_agent open_config sample_platform sample_outreach
      sample_reply True sample_dm]
  from v n t1 have c: "boredom_level (fst (autonomous_message_loop open_config sample_platform
      sample_outreach sample_agent)) = boredom_level sample_agent + 1"
    by simp
  from s a n c t1 t2 r b show ?thesis by blast
qed

section \<open>Properties of the engagement classifier\<close>

text \<open>
  \<open>contains\<close> is the substring relation.
\<close>

lemma contains_iff: "contains p s \<longleftrightarrow> (\<exists>a b. s = a @ p @ b)"
proof (induction s)
  case Nil
  then show ?case by simp
next
  case (Cons c cs)
  show ?case
  proof
    assume "contains p (c # cs)"
    then have "prefix p (c # cs) \<or> contains p cs" by simp
    then show "\<exists>a b. c # cs = a @ p @ b"
    proof
      assume "prefix p (c # cs)"
      then obtain b where "c # cs = p @ b" by (auto simp: prefix_def)
      then have "c # cs = [] @ p @ b" by simp
      then show ?thesis by blast
    next
      assume "contains p cs"
      with Cons.IH obtain a b where "cs = a @ p @ b" by blast
      then have "c # cs = (c # a) @ p @ b" by simp
      then show ?thesis by blast
    qed
  next
    assume "\<exists>a b. c # cs = a @ p @ b"
    then obtain a b where ab: "c # cs = a @ p @ b" by blast
    show "contains p (c # cs)"
    proof (cases a)
      case Nil
      with ab have "prefix p (c # cs)" by (simp add: prefix_def)
      then show ?thesis by simp
    next
      case (Cons x a')
      with ab have "cs = a' @ p @ b" by simp
      with Cons.IH have "contains p cs" by blast
      then show ?thesis by simp
    qed
  qed
qed

lemma contains_lower_iff:
  "contains p (lower s) \<longleftrightarrow> (\<exists>a u b. s = a @ u @ b \<and> lower u = p)"
proof
  assume "contains p (lower s)"
  then obtain a b where "map lower_char s = a @ (p @ b)"
    by (auto simp: contains_iff lower_def)
  from this [unfolded map_eq_append_conv]
  obtain a' r where r: "s = a' @ r" "map lower_char r = p @ b"
    by metis
  from r(2) [unfolded map_eq_append_conv]
  obtain u b' where "r = u @ b'" "map lower_char u = p"
    by metis
  with r have "s = a' @ u @ b' \<and> lower u = p" by (simp add: lower_def)
  then show "\<exists>a u b. s = a @ u @ b \<and> lower u = p" by blast
next
  assume "\<exists>a u b. s = a @ u @ b \<and> lower u = p"
  then obtain a u b where "s = a @ u @ b" "lower u = p" by blast
  then have "lower s = lower a @ p @ lower b" by (simp add: lower_def)
  then show "contains p (lower s)" unfolding contains_iff by blast
qed

text \<open>
  The whitespace characters of \<open>trimmed_of\<close> are those of \<open>is_space\<close>.
\<close>

lemma trimmed_of_is_space:
  "trimmed_of t s \<longleftrightarrow>
     (\<exists>l r. t = l @ s @ r \<and> (\<forall>c \<in> set l. is_space c) \<and> (\<forall>c \<in> set r. is_space c) \<and>
        (s = [] \<or> \<not> is_space (hd s) \<and> \<not> is_space (last s)))"
  unfolding trimmed_of_def is_space_def subset_iff by blast

lemma lower_char_y: "lower_char c = CHR ''y'' \<longleftrightarrow> c = CHR ''y'' \<or> c = CHR ''Y''"
  by (auto simp add: lower_char_def split: if_splits)

lemma lower_char_e: "lower_char c = CHR ''e'' \<longleftrightarrow> c = CHR ''e'' \<or> c = CHR ''E''"
  by (auto simp add: lower_char_def split: if_splits)

lemma lower_char_s: "lower_char c = CHR ''s'' \<longleftrightarrow> c = CHR ''s'' \<or> c = CHR ''S''"
  by (auto simp add: lower_char_def split: if_splits)

text \<open>
  A text is lowered to \<open>yes\<close> exactly when it is one of the eight spellings.
\<close>

lemma lower_yes_iff: "lower u = ''yes'' \<longleftrightarrow> yes_any_case u"
proof
  assume "lower u = ''yes''"
  then obtain x y z where u: "u = [x, y, z]"
    and "lower_char x = CHR ''y''" "lower_char y = CHR ''e''" "lower_char z = CHR ''s''"
    by (auto simp add: lower_def map_eq_Cons_conv)
  then have "(x = CHR ''y'' \<or> x = CHR ''Y'') \<and> (y = CHR ''e'' \<or> y = CHR ''E'') \<and>
      (z = CHR ''s'' \<or> z = CHR ''S'')"
    by (simp add: lower_char_y lower_char_e lower_char_s)
  with u show "yes_any_case u" by (auto simp add: yes_any_case_def)
next
  assume "yes_any_case u"
  then show "lower u = ''yes''"
    by (auto simp add: yes_any_case_def lower_def lower_char_def)
qed

lemma yes_any_case_ends:
  "yes_any_case u \<Longrightarrow> u \<noteq> [] \<and> \<not> is_space (hd u) \<and> \<not> is_space (last u)"
  by (auto simp add: yes_any_case_def is_space_def)

lemma dropWhile_keeps:
  "u \<noteq> [] \<Longrightarrow> \<not> P (hd u) \<Longrightarrow> \<exists>a' b'. dropWhile P (a @ u @ b) = a' @ u @ b'"
proof (induction a)
  case Nil
  then have "dropWhile P (u @ b) = [] @ u @ b" by (cases u) auto
  then show ?case by (metis append_Nil)
next
  case (Cons x a)
  show ?case
  proof (cases "P x")
    case True
    with Cons show ?thesis by simp
  next
    case False
    then have "dropWhile P ((x # a) @ u @ b) = (x # a) @ u @ b" by simp
    then show ?thesis by blast
  qed
qed

lemma split_at_end: "xs = rev (dropWhile P (rev xs)) @ rev (takeWhile P (rev xs))"
proof -
  have "rev xs = takeWhile P (rev xs) @ dropWhile P (rev xs)" by simp
  from arg_cong [OF this, of rev] show ?thesis
    by (simp only: rev_rev_ident rev_append)
qed

text \<open>
  Trimming keeps every occurrence of a text that neither begins nor ends with
  whitespace.
\<close>

lemma strip_keeps:
  assumes "u \<noteq> []" "\<not> is_space (hd u)" "\<not> is_space (last u)"
  shows "\<exists>a' b'. strip (a @ u @ b) = a' @ u @ b'"
proof -
  from dropWhile_keeps [of u is_space a b] assms
  obtain a1 b1 where d: "dropWhile is_space (a @ u @ b) = a1 @ u @ b1" by blast
  from assms have "rev u \<noteq> []" "\<not> is_space (hd (rev u))" by (simp_all add: hd_rev)
  with dropWhile_keeps [of "rev u" is_space "rev b1" "rev a1"]
  obtain a2 b2 where "dropWhile is_space (rev b1 @ rev u @ rev a1) = a2 @ rev u @ b2" by blast
  with d have "strip (a @ u @ b) = rev b2 @ u @ rev a2" by (simp add: strip_def)
  then show ?thesis by blast
qed

lemma strip_decomposition:
  "\<exists>l r. t = l @ strip t @ r \<and> (\<forall>c \<in> set l. is_space c) \<and> (\<forall>c \<in> set r. is_space c)"
proof -
  let ?d = "dropWhile is_space t"
  have t: "t = takeWhile is_space t @ ?d" by simp
  have d: "?d = strip t @ rev (takeWhile is_space (rev ?d))"
    unfolding strip_def by (rule split_at_end)
  have l: "\<forall>c \<in> set (takeWhile is_space t). is_space c"
    by (auto dest: set_takeWhileD)
  have r: "\<forall>c \<in> set (rev (takeWhile is_space (rev ?d))). is_space c"
    by (auto dest: set_takeWhileD)
  from d have "takeWhile is_space t @ ?d =
      takeWhile is_space t @ strip t @ rev (takeWhile is_space (rev ?d))"
    by (rule arg_cong)
  then have "t = takeWhile is_space t @ strip t @ rev (takeWhile is_space (rev ?d))"
    by (simp only: takeWhile_dropWhile_id)
  with l r show ?thesis by blast
qed

lemma strip_ends: "strip t \<noteq> [] \<Longrightarrow> \<not> is_space (hd (strip t)) \<and> \<not> is_space (last (strip t))"
proof -
  assume n: "strip t \<noteq> []"
  let ?d = "dropWhile is_space t"
  let ?e = "dropWhile is_space (rev ?d)"
  from n have e: "?e \<noteq> []" by (simp add: strip_def)
  then have "\<not> is_space (hd ?e)" by (rule hd_dropWhile)
  with e have last: "\<not> is_space (last (strip t))" by (simp add: strip_def last_rev)
  have dn: "?d \<noteq> []"
  proof
    assume a: "?d = []"
    have "?e = []" unfolding a by simp
    with e show False by (rule notE)
  qed
  then have hd: "\<not> is_space (hd ?d)" by (rule hd_dropWhile)
  have "?d = strip t @ rev (takeWhile is_space (rev ?d))"
    unfolding strip_def by (rule split_at_end)
  with n have "hd ?d = hd (strip t)" by (metis hd_append2)
  with hd last show ?thesis by simp
qed

text \<open>
  \<open>strip\<close> computes the trimmed text, and nothing else is the trimmed text.
\<close>

lemma trimmed_of_strip: "trimmed_of t (strip t)"
  unfolding trimmed_of_is_space
  using strip_decomposition [of t] strip_ends [of t] by blast

lemma trimmed_of_unique: "trimmed_of t s \<Longrightarrow> s = strip t"
proof -
  assume "trimmed_of t s"
  then obtain l r where t: "t = l @ s @ r"
    and l: "\<forall>c \<in> set l. is_space c" and r: "\<forall>c \<in> set r. is_space c"
    and s: "s = [] \<or> \<not> is_space (hd s) \<and> \<not> is_space (last s)"
    unfolding trimmed_of_is_space by blast
  from l have d1: "dropWhile is_space (l @ s @ r) = dropWhile is_space (s @ r)"
    by (simp add: dropWhile_append2)
  show "s = strip t"
  proof (cases "s = []")
    case True
    with l r t have "\<forall>c \<in> set t. is_space c" by auto
    then have dn: "dropWhile is_space t = []" by (induction t) auto
    show ?thesis unfolding strip_def dn True by simp
  next
    case False
    with s have h: "\<not> is_space (hd s)" and la: "\<not> is_space (last s)" by simp_all
    from False h have "dropWhile is_space (s @ r) = s @ r" by (cases s) auto
    with d1 have d: "dropWhile is_space t = s @ r" by (simp add: t)
    have "dropWhile is_space (rev r @ rev s) = dropWhile is_space (rev s)"
    proof (rule dropWhile_append2)
      fix c assume "c \<in> set (rev r)"
      with r show "is_space c" by simp
    qed
    moreover from False la have "dropWhile is_space (rev s) = rev s"
      by (cases "rev s") (auto simp add: hd_rev [symmetric])
    ultimately show ?thesis by (simp add: strip_def d)
  qed
qed


lemma classifier_contains_yes:
  "should_respond_to_message True (Inr (Some t)) =
     (\<exists>a u b. strip t = a @ u @ b \<and> yes_any_case u)"
  by (simp add: should_respond_to_message_def contains_lower_iff lower_yes_iff)

text \<open>
  C7: with the completion service available and a response text \<open>t\<close>, the classifier
  returns true if and only if the trimmed text contains \<open>yes\<close> in some spelling of upper
  and lower case; this is so if and only if \<open>t\<close> itself contains it, since the word has no
  whitespace. When the call raises, or the response has no text, or there is no
  completion service, it returns false.
\<close>

theorem classifier_yes_iff:
  "should_respond_to_message True (Inr (Some t)) =
     (\<exists>s a u b. trimmed_of t s \<and> s = a @ u @ b \<and> yes_any_case u) \<and>
   should_respond_to_message True (Inr (Some t)) =
     (\<exists>a u b. t = a @ u @ b \<and> yes_any_case u) \<and>
   should_respond_to_message has_client (Inl e) = False \<and>
   should_respond_to_message has_client (Inr None) = False \<and>
   should_respond_to_message False r = False"
proof (intro conjI)
  show "should_respond_to_message True (Inr (Some t)) =
     (\<exists>s a u b. trimmed_of t s \<and> s = a @ u @ b \<and> yes_any_case u)"
    unfolding classifier_contains_yes
  proof
    assume "\<exists>a u b. strip t = a @ u @ b \<and> yes_any_case u"
    then obtain a u b where "strip t = a @ u @ b" and "yes_any_case u" by blast
    with trimmed_of_strip [of t]
    have "trimmed_of t (strip t) \<and> strip t = a @ u @ b \<and> yes_any_case u" by simp
    then show "\<exists>s a u b. trimmed_of t s \<and> s = a @ u @ b \<and> yes_any_case u" by blast
  next
    assume "\<exists>s a u b. trimmed_of t s \<and> s = a @ u @ b \<and> yes_any_case u"
    then obtain s a u b where tr: "trimmed_of t s" and s: "s = a @ u @ b" and u: "yes_any_case u"
      by blast
    from tr have "s = strip t" by (rule trimmed_of_unique)
    with s have "strip t = a @ u @ b" by simp
    with u show "\<exists>a u b. strip t = a @ u @ b \<and> yes_any_case u" by blast
  qed
next
  show "should_respond_to_message True (Inr (Some t)) =
     (\<exists>a u b. t = a @ u @ b \<and> yes_any_case u)"
    unfolding classifier_contains_yes
  proof
    assume "\<exists>a u b. strip t = a @ u @ b \<and> yes_any_case u"
    then obtain a u b where s: "strip t = a @ u @ b" and u: "yes_any_case u" by blast
    from strip_decomposition [of t] obtain l r where "t = l @ strip t @ r" by blast
    with s have "t = (l @ a) @ u @ (b @ r)" by simp
    with u show "\<exists>a u b. t = a @ u @ b \<and> yes_any_case u" by blast
  next
    assume "\<exists>a u b. t = a @ u @ b \<and> yes_any_case u"
    then obtain a u b where t: "t = a @ u @ b" and u: "yes_any_case u" by blast
    from yes_any_case_ends [OF u] strip_keeps [of u a b]
    obtain a' b' where "strip (a @ u @ b) = a' @ u @ b'" by blast
    with t u show "\<exists>a u b. strip t = a @ u @ b \<and> yes_any_case u" by blast
  qed
qed (simp_all add: should_respond_to_message_def)

theorem classifier_yes_iff_witness:
  "trimmed_of '' Yes.  '' ''Yes.'' \<and> yes_any_case ''Yes'' \<and>
   should_respond_to_message True (Inr (Some '' Yes.  '')) \<and>
   should_respond_to_message True (Inr (Some ''no, YESterday'')) \<and>
   \<not> should_respond_to_message True (Inr (Some ''No'')) \<and>
   \<not> (\<exists>a u b. ''No'' = a @ u @ b \<and> yes_any_case u) \<and>
   \<not> should_respond_to_message True (Inl ServiceError) \<and>
   \<not> should_respond_to_message True (Inr None) \<and>
   \<not> should_respond_to_message False (Inr (Some ''yes''))"
proof -
  have tr: "trimmed_of '' Yes.  '' ''Yes.''"
    unfolding trimmed_of_def
    by (rule exI [of _ "'' ''"], rule exI [of _ "''  ''"]) simp
  have y: "yes_any_case ''Yes''" and y2: "yes_any_case ''YES''"
    by (simp_all add: yes_any_case_def)
  have "\<exists>s a u b. trimmed_of '' Yes.  '' s \<and> s = a @ u @ b \<and> yes_any_case u"
  proof (intro exI conjI)
    show "trimmed_of '' Yes.  '' ''Yes.''" by (rule tr)
    show "''Yes.'' = [] @ ''Yes'' @ ''.''" by simp
    show "yes_any_case ''Yes''" by (rule y)
  qed
  with classifier_yes_iff [of "'' Yes.  ''"]
  have p1: "should_respond_to_message True (Inr (Some '' Yes.  ''))" by blast
  have "\<exists>a u b. ''no, YESterday'' = a @ u @ b \<and> yes_any_case u"
  proof (intro exI conjI)
    show "''no, YESterday'' = ''no, '' @ ''YES'' @ ''terday''" by simp
    show "yes_any_case ''YES''" by (rule y2)
  qed
  with classifier_yes_iff [of "''no, YESterday''"]
  have p2: "should_respond_to_message True (Inr (Some ''no, YESterday''))" by blast
  have n: "\<not> should_respond_to_message True (Inr (Some ''No''))"
    by (simp add: should_respond_to_message_def strip_def is_space_def lower_def lower_char_def)
  with classifier_yes_iff [of "''No''"]
  have n': "\<not> (\<exists>a u b. ''No'' = a @ u @ b \<and> yes_any_case u)" by blast
  from classifier_yes_iff [of "''yes''" True ServiceError "Inr (Some ''yes'')"]
  have e: "\<not> should_respond_to_message True (Inl ServiceError) \<and>
      \<not> should_respond_to_message True (Inr None) \<and>
      \<not> should_respond_to_message False (Inr (Some ''yes''))"
    by blast
  from tr y p1 p2 n n' e show ?thesis by blast
qed

text \<open>
  Some decisions, computed from the definitions.
\<close>

lemma classifier_examples:
  "should_respond_to_message True (Inr (Some '' Yes.  '')) \<and>
   should_respond_to_message True (Inr (Some ''YES'')) \<and>
   \<not> should_respond_to_message True (Inr (Some ''No'')) \<and>
   should_respond_to_message True (Inr (Some ''no, yesterday'')) \<and>
   \<not> should_respond_to_message True (Inl ServiceError)"
  by (simp add: should_respond_to_message_def strip_def is_space_def lower_def lower_char_def)

section \<open>Properties of the reaction log\<close>





section \<open>The migration and the parser at their failing inputs\<close>

lemmas migration_defs =
  migrate_database_def migration_steps_def execute_def select_guild_id_def rename_memories_def
  create_memory_table_def create_memories_def copy_rows_def drop_memories_old_def commit_def
  rollback_def begin_transaction_def connect_def

text \<open>
  When the copy of the rows fails, the migration ends with the exception raised again,
  but the rename and the new table are committed: \<open>create_memory_table\<close> commits in the
  middle of the transaction, and the rollback can only undo the copy.
\<close>

lemma migration_copy_failure:
  "insert_rows rows [] = Inl e \<Longrightarrow>
   migrate_database
     (connect \<lparr>memories = Some (Legacy rows), memories_old = None, reacted_messages = log\<rparr>) =
     (Some e, connect \<lparr>memories = Some (Current []), memories_old = Some (Legacy rows),
                        reacted_messages = log\<rparr>)"
  by (simp add: migration_defs)

text \<open>
  When the copy succeeds, the new table holds the rows and the old one is dropped.
\<close>

lemma migration_success:
  "insert_rows rows [] = Inr m \<Longrightarrow>
   migrate_database
     (connect \<lparr>memories = Some (Legacy rows), memories_old = None, reacted_messages = log\<rparr>) =
     (None, connect \<lparr>memories = Some (Current m), memories_old = None,
                      reacted_messages = log\<rparr>)"
  by (simp add: migration_defs)

text \<open>
  C1 at a legacy table whose second row has NULL notes: the copy fails on the NOT NULL
  constraint, the IntegrityError is raised again, and the file is left with the legacy
  rows under the name \<open>memories_old\<close> and an empty new table \<open>memories\<close>. The legacy
  table is not restored under its original name.
\<close>

theorem migration_failure_half_migrated:
  "migrate_database (connect legacy_database) =
     (Some IntegrityError,
      connect \<lparr>memories = Some (Current []), memories_old = Some (Legacy legacy_rows),
               reacted_messages = None\<rparr>) \<and>
   memories (committed (snd (migrate_database (connect legacy_database)))) \<noteq>
     memories legacy_database"
proof -
  have "insert_rows legacy_rows [] = Inl IntegrityError"
    by (simp add: legacy_rows_def)
  then have "migrate_database (connect legacy_database) =
     (Some IntegrityError,
      connect \<lparr>memories = Some (Current []), memories_old = Some (Legacy legacy_rows),
               reacted_messages = None\<rparr>)"
    unfolding legacy_database_def by (rule migration_copy_failure)
  then show ?thesis by (simp add: connect_def legacy_database_def)
qed

lemmas parse_defs =
  parse_response_def memorize_block_def relationship_block_def MEMORIZE_def RELATIONSHIP_def
  str_split_def index_def strip_def is_space_def

text \<open>
  C6 at the reply followed by a memorize line and then a relationship line: the second
  block splits the reply text that the first block has already cut at the memorize marker,
  so \<open>parts[1]\<close> raises IndexError. The memory has been stored by then; no relationship
  is stored and no reply is sent.
\<close>

theorem memorize_then_relationship_raises:
  "parse_response (strip both_directives) = (Some ''likes cats'', Inl IndexError) \<and>
   get_contextual_response (Inr (Some both_directives)) True sample_dm sample_agent =
     (sample_agent\<lparr>store := sample_store @
        [((7, 0), \<lparr>user_name = Some ''ann'', notes = ''- likes cats'',
                   relationship_status = ''neutral''\<rparr>)]\<rparr>, None)"
proof -
  have s: "strip both_directives =
     ''Hello there'' @ [CHR 0x0A] @ ''[MEMORIZE]likes cats'' @ [CHR 0x0A] @
     ''[RELATIONSHIP]friendly''"
    by (simp add: both_directives_def strip_def is_space_def)
  have m: "memorize_block (strip both_directives) = Inr (''Hello there'', Some ''likes cats'')"
    unfolding s by (simp add: parse_defs)
  have r: "relationship_block (strip both_directives) ''Hello there'' = Inl IndexError"
    unfolding s by (simp add: parse_defs)
  have p: "parse_response (strip both_directives) = (Some ''likes cats'', Inl IndexError)"
    by (simp add: parse_response_def m r)
  have g: "get_contextual_response (Inr (Some both_directives)) True sample_dm sample_agent =
     (sample_agent\<lparr>store := sample_store @
        [((7, 0), \<lparr>user_name = Some ''ann'', notes = ''- likes cats'',
                   relationship_status = ''neutral''\<rparr>)]\<rparr>, None)"
    by (simp add: get_contextual_response_def m r Let_def sample_agent_def init_agent_def
          sample_dm_def sample_store_def context_guild_id_def get_user_profile_def
          append_user_memory_def set_user_notes_def update_rows_def placeholder_def)
  from p g show ?thesis by simp
qed

text \<open>
  In the reversed order the three fields are found.
\<close>

lemma relationship_then_memorize_parses:
  "parse_response (strip reversed_directives) =
     (Some ''likes cats'', Inr (''Hello there'', Some ''friendly''))"
  by (simp add: reversed_directives_def parse_defs)

text \<open>
  The markers spelt \<open>MEMORIZE:\<close> and \<open>RELATIONSHIP:\<close> are no markers of the source: the
  whole text is the reply.
\<close>

lemma colon_markers_not_recognised:
  "parse_response (strip colon_directives) = (None, Inr (colon_directives, None))"
  by (simp add: colon_directives_def parse_defs)

text \<open>
  A text with no marker is the reply as it is, with no directive.
\<close>

lemma no_marker_parses:
  "\<not> contains MEMORIZE s \<Longrightarrow> \<not> contains RELATIONSHIP s \<Longrightarrow>
   parse_response s = (None, Inr (s, None))"
  by (simp add: parse_response_def memorize_block_def relationship_block_def)

section \<open>Properties of appending a memory\<close>

lemma map_of_update_rows:
  "map_of (update_rows f k db) k' =
     (if k' = k then map_option f (map_of db k) else map_of db k')"
  unfolding update_rows_def
  by (induction db) auto

lemma split_from_single_append:
  "split_from [c] cur (a @ c # b) = split_from [c] cur a @ split_from [c] [] b"
  by (induction a arbitrary: cur) auto

lemma split_from_single_absent:
  "c \<notin> set a \<Longrightarrow> split_from [c] cur a = [cur @ a]"
  by (induction a arbitrary: cur) auto

lemma lines_of_append_line:
  "CHR 0x0A \<notin> set l \<Longrightarrow> lines_of (s @ [CHR 0x0A] @ l) = lines_of s @ [l]"
  by (simp add: lines_of_def str_split_def split_from_single_append split_from_single_absent)

lemma lines_of_one_line:
  "CHR 0x0A \<notin> set l \<Longrightarrow> lines_of l = [l]"
  by (simp add: lines_of_def str_split_def split_from_single_absent)

text \<open>
  \<open>get_user_profile\<close> returns the row of the key, created with the defaults when absent.
\<close>

lemma get_user_profile_eq:
  "get_user_profile db uid n gid =
     (case map_of db (uid, gid) of
        None \<Rightarrow> ((placeholder, ''neutral''),
                 db @ [((uid, gid), \<lparr>user_name = Some n, notes = placeholder,
                                       relationship_status = ''neutral''\<rparr>)])
      | Some r \<Rightarrow> ((notes r, relationship_status r), db))"
  by (simp add: get_user_profile_def Let_def map_add_def split: option.split)

lemma current_notes_eq:
  "current_notes db uid gid =
     (case map_of db (uid, gid) of None \<Rightarrow> placeholder | Some r \<Rightarrow> notes r)"
  by (simp add: current_notes_def get_user_profile_eq split: option.split)

lemma current_notes_append:
  "current_notes (append_user_memory db uid s gid) uid gid =
     (if contains placeholder (current_notes db uid gid) then ''- '' @ s
      else current_notes db uid gid @ [CHR 0x0A] @ ''- '' @ s)"
  by (simp add: current_notes_eq append_user_memory_def get_user_profile_eq set_user_notes_def
        map_of_update_rows map_add_def split: option.split)

lemma current_notes_append_other:
  "(uid', gid') \<noteq> (uid, gid) \<Longrightarrow>
   current_notes (append_user_memory db uid s gid) uid' gid' = current_notes db uid' gid'"
  by (auto simp add: current_notes_eq append_user_memory_def get_user_profile_eq
        set_user_notes_def map_of_update_rows map_add_def split: option.split)

text \<open>
  C2, as stated, fails: starting from the empty store, a first memory whose text contains
  the placeholder sentence leaves notes that are not equal to the placeholder; the next
  append replaces them and the prior line is lost. The test in the source is \<open>in\<close>, not
  \<open>==\<close>.
\<close>

theorem append_after_placeholder_text_counterexample:
  "current_notes (append_user_memory [] 1 ''said: No memories yet.'' 0) 1 0 =
     ''- said: No memories yet.'' \<and>
   ''- said: No memories yet.'' \<noteq> placeholder \<and>
   current_notes
     (append_user_memory (append_user_memory [] 1 ''said: No memories yet.'' 0) 1 ''likes cats'' 0)
     1 0 = ''- likes cats''"
  by (simp add: current_notes_eq append_user_memory_def get_user_profile_eq set_user_notes_def
        update_rows_def placeholder_def)

text \<open>
  C2, amended: for every key, when the current notes contain the placeholder as a
  substring, \<open>append_user_memory\<close> replaces them with the one bullet \<open>- summary\<close>;
  when they do not, it keeps them and adds a line feed and the bullet. For a summary
  without a line feed this keeps every prior line, in order, and adds exactly one line
  at the end; and on notes equal to the placeholder (so also on a key with no row) the
  result is exactly one line.
\<close>

theorem append_user_memory_notes:
  "(contains placeholder (current_notes db uid gid) \<longrightarrow>
      current_notes (append_user_memory db uid s gid) uid gid = ''- '' @ s) \<and>
   (\<not> contains placeholder (current_notes db uid gid) \<longrightarrow>
      current_notes (append_user_memory db uid s gid) uid gid =
        current_notes db uid gid @ [CHR 0x0A] @ ''- '' @ s) \<and>
   (\<not> contains placeholder (current_notes db uid gid) \<and> CHR 0x0A \<notin> set s \<longrightarrow>
      lines_of (current_notes (append_user_memory db uid s gid) uid gid) =
        lines_of (current_notes db uid gid) @ [''- '' @ s]) \<and>
   (current_notes db uid gid = placeholder \<and> CHR 0x0A \<notin> set s \<longrightarrow>
      lines_of (current_notes (append_user_memory db uid s gid) uid gid) = [''- '' @ s])"
proof (intro conjI impI)
  assume "contains placeholder (current_notes db uid gid)"
  then show "current_notes (append_user_memory db uid s gid) uid gid = ''- '' @ s"
    by (simp add: current_notes_append)
next
  assume "\<not> contains placeholder (current_notes db uid gid)"
  then show "current_notes (append_user_memory db uid s gid) uid gid =
        current_notes db uid gid @ [CHR 0x0A] @ ''- '' @ s"
    by (simp add: current_notes_append)
next
  assume h: "\<not> contains placeholder (current_notes db uid gid) \<and> CHR 0x0A \<notin> set s"
  then have "CHR 0x0A \<notin> set (''- '' @ s)" by simp
  then have "lines_of (current_notes db uid gid @ [CHR 0x0A] @ (''- '' @ s)) =
      lines_of (current_notes db uid gid) @ [''- '' @ s]"
    by (rule lines_of_append_line)
  with h show "lines_of (current_notes (append_user_memory db uid s gid) uid gid) =
        lines_of (current_notes db uid gid) @ [''- '' @ s]"
    by (simp add: current_notes_append)
next
  assume h: "current_notes db uid gid = placeholder \<and> CHR 0x0A \<notin> set s"
  then have c: "contains placeholder (current_notes db uid gid)"
    by (simp add: contains_iff) (metis append_Nil append_Nil2)
  from h have "CHR 0x0A \<notin> set (''- '' @ s)" by simp
  then have "lines_of (''- '' @ s) = [''- '' @ s]" by (rule lines_of_one_line)
  with c show "lines_of (current_notes (append_user_memory db uid s gid) uid gid) = [''- '' @ s]"
    by (simp add: current_notes_append)
qed

theorem append_user_memory_notes_witness:
  "\<not> contains placeholder (current_notes sample_store 1 0) \<and>
   CHR 0x0A \<notin> set ''plays chess'' \<and>
   current_notes (append_user_memory sample_store 1 ''plays chess'' 0) 1 0 =
     ''- likes cats'' @ [CHR 0x0A] @ ''- plays chess'' \<and>
   lines_of (current_notes (append_user_memory sample_store 1 ''plays chess'' 0) 1 0) =
     [''- likes cats'', ''- plays chess''] \<and>
   current_notes [] 1 0 = placeholder \<and>
   contains placeholder (current_notes [] 1 0) \<and>
   current_notes (append_user_memory [] 1 ''plays chess'' 0) 1 0 = ''- plays chess'' \<and>
   lines_of (current_notes (append_user_memory [] 1 ''plays chess'' 0) 1 0) = [''- plays chess'']"
proof -
  have n: "current_notes sample_store 1 0 = ''- likes cats''"
    by (simp add: current_notes_eq sample_store_def)
  have a: "\<not> contains placeholder (current_notes sample_store 1 0)"
    by (simp add: n placeholder_def)
  have b: "CHR 0x0A \<notin> set ''plays chess''" by simp
  have l: "lines_of ''- likes cats'' = [''- likes cats'']"
    by (simp add: lines_of_def str_split_def)
  have e: "current_notes [] 1 0 = placeholder"
    by (simp add: current_notes_eq)
  have c: "contains placeholder (current_notes [] 1 0)"
    by (simp add: e placeholder_def)
  note t = append_user_memory_notes [of sample_store 1 0 "''plays chess''"]
  note u = append_user_memory_notes [of "[]" 1 0 "''plays chess''"]
  from t a have "current_notes (append_user_memory sample_store 1 ''plays chess'' 0) 1 0 =
     current_notes sample_store 1 0 @ [CHR 0x0A] @ ''- '' @ ''plays chess''"
    by blast
  then have t1: "current_notes (append_user_memory sample_store 1 ''plays chess'' 0) 1 0 =
     ''- likes cats'' @ [CHR 0x0A] @ ''- plays chess''"
    unfolding n by simp
  from t a b have "lines_of (current_notes (append_user_memory sample_store 1 ''plays chess'' 0) 1 0) =
     lines_of (current_notes sample_store 1 0) @ [''- '' @ ''plays chess'']"
    by blast
  then have t2: "lines_of (current_notes (append_user_memory sample_store 1 ''plays chess'' 0) 1 0) =
     [''- likes cats'', ''- plays chess'']"
    unfolding n l by simp
  from u c have "current_notes (append_user_memory [] 1 ''plays chess'' 0) 1 0 = ''- '' @ ''plays chess''"
    by blast
  then have u1: "current_notes (append_user_memory [] 1 ''plays chess'' 0) 1 0 = ''- plays chess''"
    by simp
  from u e b have "lines_of (current_notes (append_user_memory [] 1 ''plays chess'' 0) 1 0) =
     [''- '' @ ''plays chess'']"
    by blast
  then have u2: "lines_of (current_notes (append_user_memory [] 1 ''plays chess'' 0) 1 0) =
     [''- plays chess'']"
    by simp
  from a b t1 t2 e c u1 u2 show ?thesis by blast
qed

section \<open>Properties of the parser on duplicate markers\<close>

text \<open>
  A marker whose first character does not occur again in it cannot begin inside a text
  free of it and run over a following occurrence of that character.
\<close>

lemma prefix_straddle:
  assumes p: "prefix (c # rest) (a @ c # s)" and a: "a \<noteq> []" and n: "\<not> prefix (c # rest) a"
  shows "c \<in> set rest"
proof -
  from p have "prefix (c # rest) a \<or> (\<exists>us. c # rest = a @ us \<and> prefix us (c # s))"
    by (simp add: prefix_append)
  with n obtain us where us: "c # rest = a @ us" "prefix us (c # s)" by blast
  from us(1) n have "us \<noteq> []" by auto
  with us(2) obtain us' where "us = c # us'" by (cases us) auto
  with us(1) a show ?thesis by (cases a) auto
qed

lemma contains_skip:
  "c \<notin> set rest \<Longrightarrow> \<not> contains (c # rest) a \<Longrightarrow>
   contains (c # rest) (a @ c # s) = contains (c # rest) (c # s)"
proof (induction a)
  case Nil
  then show ?case by simp
next
  case (Cons x a)
  from Cons.prems have np: "\<not> prefix (c # rest) (x # a)" and nc: "\<not> contains (c # rest) a"
    by simp_all
  have "\<not> prefix (c # rest) ((x # a) @ c # s)"
    using prefix_straddle [of c rest "x # a" s] np Cons.prems(1) by blast
  with Cons.IH [OF Cons.prems(1) nc] show ?case by auto
qed

text \<open>
  The first piece of a split is the text before the first marker.
\<close>

lemma split_from_first:
  "c \<notin> set rest \<Longrightarrow> \<not> contains (c # rest) a \<Longrightarrow>
   split_from (c # rest) cur (a @ (c # rest) @ s) = (cur @ a) # split_from (c # rest) [] s"
proof (induction a arbitrary: cur)
  case Nil
  then show ?case by simp
next
  case (Cons x a)
  from Cons.prems have np: "\<not> prefix (c # rest) (x # a)" and nc: "\<not> contains (c # rest) a"
    by simp_all
  have "\<not> prefix (c # rest) ((x # a) @ c # (rest @ s))"
    using prefix_straddle [of c rest "x # a" "rest @ s"] np Cons.prems(1) by blast
  with Cons.IH [OF Cons.prems(1) nc, of "cur @ [x]"] show ?case by auto
qed

lemma split_from_absent:
  "\<not> contains sep a \<Longrightarrow> split_from sep cur a = [cur @ a]"
proof (induction a arbitrary: cur)
  case Nil
  then show ?case by simp
next
  case (Cons x a)
  then show ?case by simp
qed

lemma contains_RELATIONSHIP_MEMORIZE:
  "contains RELATIONSHIP (MEMORIZE @ s) = contains RELATIONSHIP s"
  by (simp add: MEMORIZE_def RELATIONSHIP_def)

lemma contains_MEMORIZE_RELATIONSHIP:
  "contains MEMORIZE (RELATIONSHIP @ s) = contains MEMORIZE s"
  by (simp add: MEMORIZE_def RELATIONSHIP_def)

lemma split_MEMORIZE_first:
  "\<not> contains MEMORIZE a \<Longrightarrow>
   split_from MEMORIZE cur (a @ MEMORIZE @ s) = (cur @ a) # split_from MEMORIZE [] s"
  unfolding MEMORIZE_def by (rule split_from_first) simp_all

lemma split_RELATIONSHIP_first:
  "\<not> contains RELATIONSHIP a \<Longrightarrow>
   split_from RELATIONSHIP cur (a @ RELATIONSHIP @ s) = (cur @ a) # split_from RELATIONSHIP [] s"
  unfolding RELATIONSHIP_def by (rule split_from_first) simp_all

lemma contains_RELATIONSHIP_skip:
  assumes "\<not> contains RELATIONSHIP a"
  shows "contains RELATIONSHIP (a @ MEMORIZE @ s) = contains RELATIONSHIP s"
proof -
  have "contains (CHR ''['' # ''RELATIONSHIP]'') (a @ CHR ''['' # (''MEMORIZE]'' @ s)) =
        contains (CHR ''['' # ''RELATIONSHIP]'') (CHR ''['' # (''MEMORIZE]'' @ s))"
    using assms by (intro contains_skip) (simp_all add: RELATIONSHIP_def)
  then have "contains RELATIONSHIP (a @ MEMORIZE @ s) = contains RELATIONSHIP (MEMORIZE @ s)"
    by (simp add: RELATIONSHIP_def MEMORIZE_def)
  then show ?thesis by (simp only: contains_RELATIONSHIP_MEMORIZE)
qed

lemma contains_MEMORIZE_skip:
  assumes "\<not> contains MEMORIZE a"
  shows "contains MEMORIZE (a @ RELATIONSHIP @ s) = contains MEMORIZE s"
proof -
  have "contains (CHR ''['' # ''MEMORIZE]'') (a @ CHR ''['' # (''RELATIONSHIP]'' @ s)) =
        contains (CHR ''['' # ''MEMORIZE]'') (CHR ''['' # (''RELATIONSHIP]'' @ s))"
    using assms by (intro contains_skip) (simp_all add: MEMORIZE_def)
  then have "contains MEMORIZE (a @ RELATIONSHIP @ s) = contains MEMORIZE (RELATIONSHIP @ s)"
    by (simp add: RELATIONSHIP_def MEMORIZE_def)
  then show ?thesis by (simp only: contains_MEMORIZE_RELATIONSHIP)
qed

lemma contains_marker_self: "contains p (a @ p @ s)"
  unfolding contains_iff by blast

text \<open>
  C5, as stated, fails: a second occurrence of a marker is not part of the payload of
  the first. The payload ends there, and the text after it is dropped.
\<close>

theorem duplicate_marker_counterexample:
  "parse_response ''hi[MEMORIZE]a[MEMORIZE]b'' = (Some ''a'', Inr (''hi'', None)) \<and>
   fst (parse_response ''hi[MEMORIZE]a[MEMORIZE]b'') \<noteq> Some ''a[MEMORIZE]b'' \<and>
   parse_response ''hi[RELATIONSHIP]a[RELATIONSHIP]b'' = (None, Inr (''hi'', Some ''a''))"
  by (simp add: parse_response_def memorize_block_def relationship_block_def MEMORIZE_def
        RELATIONSHIP_def str_split_def index_def strip_def is_space_def)

text \<open>
  C5, amended: let a text be \<open>a\<close>, a marker, \<open>b\<close>, the same marker again, and \<open>c\<close>, where
  \<open>a\<close> and \<open>b\<close> contain no marker and \<open>c\<close> does not contain the other marker (it may
  contain this one again). Then only the first occurrence starts a directive: the reply
  is \<open>a\<close> trimmed, the payload is \<open>b\<close> trimmed, the other directive is absent, and the
  second occurrence with all of \<open>c\<close> is discarded.
\<close>

theorem duplicate_marker_ends_payload:
  "(\<not> contains MEMORIZE a \<and> \<not> contains RELATIONSHIP a \<and>
    \<not> contains MEMORIZE b \<and> \<not> contains RELATIONSHIP b \<and> \<not> contains RELATIONSHIP c \<longrightarrow>
      parse_response (a @ MEMORIZE @ b @ MEMORIZE @ c) = (Some (strip b), Inr (strip a, None))) \<and>
   (\<not> contains MEMORIZE a \<and> \<not> contains RELATIONSHIP a \<and>
    \<not> contains MEMORIZE b \<and> \<not> contains RELATIONSHIP b \<and> \<not> contains MEMORIZE c \<longrightarrow>
      parse_response (a @ RELATIONSHIP @ b @ RELATIONSHIP @ c) =
        (None, Inr (strip a, Some (strip b))))"
proof (intro conjI impI)
  assume h: "\<not> contains MEMORIZE a \<and> \<not> contains RELATIONSHIP a \<and>
    \<not> contains MEMORIZE b \<and> \<not> contains RELATIONSHIP b \<and> \<not> contains RELATIONSHIP c"
  let ?full = "a @ MEMORIZE @ b @ MEMORIZE @ c"
  have m: "contains MEMORIZE ?full" by (rule contains_marker_self)
  have parts: "str_split ?full MEMORIZE = a # b # split_from MEMORIZE [] c"
    using h by (simp add: str_split_def split_MEMORIZE_first)
  have payload: "str_split b RELATIONSHIP = [b]"
    using h by (simp add: str_split_def split_from_absent)
  have mb: "memorize_block ?full = Inr (strip a, Some (strip b))"
    by (simp add: memorize_block_def m parts payload index_def)
  have "contains RELATIONSHIP ?full = contains RELATIONSHIP c"
    using h by (simp add: contains_RELATIONSHIP_skip)
  with h have r: "\<not> contains RELATIONSHIP ?full" by simp
  have rb: "relationship_block ?full (strip a) = Inr (strip a, None)"
    using r by (simp add: relationship_block_def)
  show "parse_response ?full = (Some (strip b), Inr (strip a, None))"
    by (simp add: parse_response_def mb rb)
next
  assume h: "\<not> contains MEMORIZE a \<and> \<not> contains RELATIONSHIP a \<and>
    \<not> contains MEMORIZE b \<and> \<not> contains RELATIONSHIP b \<and> \<not> contains MEMORIZE c"
  let ?full = "a @ RELATIONSHIP @ b @ RELATIONSHIP @ c"
  have "contains MEMORIZE ?full = contains MEMORIZE c"
    using h by (simp add: contains_MEMORIZE_skip)
  with h have m: "\<not> contains MEMORIZE ?full" by simp
  have mb: "memorize_block ?full = Inr (?full, None)"
    using m by (simp add: memorize_block_def)
  have r: "contains RELATIONSHIP ?full" by (rule contains_marker_self)
  have parts: "str_split ?full RELATIONSHIP = a # b # split_from RELATIONSHIP [] c"
    using h by (simp add: str_split_def split_RELATIONSHIP_first)
  have payload: "str_split b MEMORIZE = [b]"
    using h by (simp add: str_split_def split_from_absent)
  have rb: "relationship_block ?full ?full = Inr (strip a, Some (strip b))"
    by (simp add: relationship_block_def r parts payload index_def)
  show "parse_response ?full = (None, Inr (strip a, Some (strip b)))"
    by (simp add: parse_response_def mb rb)
qed

theorem duplicate_marker_ends_payload_witness:
  "\<not> contains MEMORIZE ''hi '' \<and> \<not> contains RELATIONSHIP ''hi '' \<and>
   \<not> contains MEMORIZE '' likes cats '' \<and> \<not> contains RELATIONSHIP '' likes cats '' \<and>
   \<not> contains RELATIONSHIP '' and dogs[MEMORIZE]too'' \<and>
   \<not> contains MEMORIZE ''wary[RELATIONSHIP]'' \<and>
   parse_response (''hi '' @ MEMORIZE @ '' likes cats '' @ MEMORIZE @ '' and dogs[MEMORIZE]too'') =
     (Some ''likes cats'', Inr (''hi'', None)) \<and>
   parse_response (''hi '' @ RELATIONSHIP @ '' likes cats '' @ RELATIONSHIP @ ''wary[RELATIONSHIP]'') =
     (None, Inr (''hi'', Some ''likes cats''))"
proof -
  have h1: "\<not> contains MEMORIZE ''hi '' \<and> \<not> contains RELATIONSHIP ''hi '' \<and>
    \<not> contains MEMORIZE '' likes cats '' \<and> \<not> contains RELATIONSHIP '' likes cats '' \<and>
    \<not> contains RELATIONSHIP '' and dogs[MEMORIZE]too''"
    by (simp add: MEMORIZE_def RELATIONSHIP_def)
  have h2: "\<not> contains MEMORIZE ''hi '' \<and> \<not> contains RELATIONSHIP ''hi '' \<and>
    \<not> contains MEMORIZE '' likes cats '' \<and> \<not> contains RELATIONSHIP '' likes cats '' \<and>
    \<not> contains MEMORIZE ''wary[RELATIONSHIP]''"
    by (simp add: MEMORIZE_def RELATIONSHIP_def)
  have s1: "strip ''hi '' = ''hi''" and s2: "strip '' likes cats '' = ''likes cats''"
    by (simp_all add: strip_def is_space_def)
  note t = duplicate_marker_ends_payload [of "''hi ''" "'' likes cats ''"
      "'' and dogs[MEMORIZE]too''"]
  note u = duplicate_marker_ends_payload [of "''hi ''" "'' likes cats ''" "''wary[RELATIONSHIP]''"]
  from t h1 have
    "parse_response (''hi '' @ MEMORIZE @ '' likes cats '' @ MEMORIZE @ '' and dogs[MEMORIZE]too'') =
       (Some (strip '' likes cats ''), Inr (strip ''hi '', None))"
    by blast
  then have p1:
    "parse_response (''hi '' @ MEMORIZE @ '' likes cats '' @ MEMORIZE @ '' and dogs[MEMORIZE]too'') =
       (Some ''likes cats'', Inr (''hi'', None))"
    by (simp only: s1 s2)
  from u h2 have
    "parse_response (''hi '' @ RELATIONSHIP @ '' likes cats '' @ RELATIONSHIP @ ''wary[RELATIONSHIP]'') =
       (None, Inr (strip ''hi '', Some (strip '' likes cats '')))"
    by blast
  then have p2:
    "parse_response (''hi '' @ RELATIONSHIP @ '' likes cats '' @ RELATIONSHIP @ ''wary[RELATIONSHIP]'') =
       (None, Inr (''hi'', Some ''likes cats''))"
    by (simp only: s1 s2)
  from h1 h2 p1 p2 show ?thesis by blast
qed

end
